theory Spec2Isabelle
  imports Main "HOL-Library.Word"
begin

section \<open>Python values\<close>

text \<open>
  A Python \<open>str\<close> is a sequence of Unicode code points, a \<open>bytes\<close> object a sequence
  of octets. ASCII literals of the source are written as HOL strings and lifted by \<open>u\<close>.
\<close>

type_synonym str = "nat list"
type_synonym bytes = "8 word list"

definition u :: "string \<Rightarrow> str" where
  "u cs = map of_char cs"

text \<open>The exceptions the pipeline can raise; each carries what the source passes to it.\<close>

datatype error =
    ValueError str
  | ImportError str
  | RuntimeError str
  | UnicodeDecodeError
  | UnicodeError str
  | UnicodeEncodeError
  | JSONDecodeError str
  | OSError str
  | TypeError
  | IndexError
  | AttributeError str
  | RecursionError
  | LibraryError str

text \<open>\<open>sep.join(xs)\<close>\<close>

fun join :: "str \<Rightarrow> str list \<Rightarrow> str" where
  "join sep [] = []"
| "join sep [x] = x"
| "join sep (x # y # ys) = x @ sep @ join sep (y # ys)"

section \<open>File name suffix (pathlib)\<close>

text \<open>\<open>s.split(sep)\<close> for a one-character separator.\<close>

fun split_on :: "nat \<Rightarrow> str \<Rightarrow> str list" where
  "split_on c [] = [[]]"
| "split_on c (x # xs) =
     (if x = c then [] # split_on c xs
      else (case split_on c xs of [] \<Rightarrow> [[x]] | w # ws \<Rightarrow> (x # w) # ws))"

text \<open>
  \<open>Path(p).name\<close> on a POSIX path: the last component that is neither empty nor \<open>.\<close>,
  or the empty string when there is none.
\<close>

definition path_name :: "str \<Rightarrow> str" where
  "path_name p =
     (let parts = filter (\<lambda>x. x \<noteq> [] \<and> x \<noteq> [46]) (split_on 47 p)
      in if parts = [] then [] else last parts)"

text \<open>\<open>s.rfind(c)\<close>: the index of the last occurrence, \<open>-1\<close> when there is none.\<close>

fun rfind :: "nat \<Rightarrow> str \<Rightarrow> int" where
  "rfind c [] = -1"
| "rfind c (x # xs) =
     (let r = rfind c xs in
      if 0 \<le> r then r + 1 else if x = c then 0 else -1)"

text \<open>
  \<open>PurePath.suffix\<close>:
  \<^verbatim>\<open>i = name.rfind('.'); return name[i:] if 0 < i < len(name) - 1 else ''\<close>
\<close>

definition path_suffix :: "str \<Rightarrow> str" where
  "path_suffix p =
     (let name = path_name p; i = rfind 46 name
      in if 0 < i \<and> i < int (length name) - 1 then drop (nat i) name else [])"

text \<open>
  \<open>str.lower()\<close>. On ASCII text it maps \<open>A..Z\<close> to \<open>a..z\<close>; on text with other code
  points the Unicode character database decides, which is taken as a parameter.
\<close>

definition ascii_lower :: "nat \<Rightarrow> nat" where
  "ascii_lower c = (if 65 \<le> c \<and> c \<le> 90 then c + 32 else c)"

definition lower :: "(str \<Rightarrow> str) \<Rightarrow> str \<Rightarrow> str" where
  "lower ucd s = (if \<forall>c \<in> set s. c < 128 then map ascii_lower s else ucd s)"

section \<open>Text decoding\<close>

datatype errors_mode = Strict | Ignore | Replace

definition is_cont :: "nat \<Rightarrow> bool" where
  "is_cont b \<longleftrightarrow> 128 \<le> b \<and> b < 192"

text \<open>
  One step of the UTF-8 decoder on the lead byte \<open>b0\<close> and the bytes after it.
  \<open>Inr (c, k)\<close>: code point \<open>c\<close> decoded, \<open>k\<close> further bytes consumed.
  \<open>Inl k\<close>: a decoding error whose range is the lead byte and \<open>k\<close> further bytes
  (an invalid start byte, an invalid continuation byte, or the end of the data).
\<close>

definition utf8_step :: "nat \<Rightarrow> nat list \<Rightarrow> nat + nat \<times> nat" where
  "utf8_step b0 bs =
     (if b0 < 128 then Inr (b0, 0)
      else if b0 < 194 then Inl 0
      else if b0 < 224 then
        (case bs of
           [] \<Rightarrow> Inl 0
         | b1 # _ \<Rightarrow>
             if is_cont b1 then Inr ((b0 - 192) * 64 + (b1 - 128), 1) else Inl 0)
      else if b0 < 240 then
        (case bs of
           [] \<Rightarrow> Inl 0
         | b1 # bs1 \<Rightarrow>
             if \<not> is_cont b1 \<or> (if b1 < 160 then b0 = 224 else b0 = 237) then Inl 0
             else (case bs1 of
                     [] \<Rightarrow> Inl 1
                   | b2 # _ \<Rightarrow>
                       if is_cont b2
                       then Inr ((b0 - 224) * 4096 + (b1 - 128) * 64 + (b2 - 128), 2)
                       else Inl 1))
      else if b0 < 245 then
        (case bs of
           [] \<Rightarrow> Inl 0
         | b1 # bs1 \<Rightarrow>
             if \<not> is_cont b1 \<or> (if b1 < 144 then b0 = 240 else b0 = 244) then Inl 0
             else (case bs1 of
                     [] \<Rightarrow> Inl 1
                   | b2 # bs2 \<Rightarrow>
                       if \<not> is_cont b2 then Inl 1
                       else (case bs2 of
                               [] \<Rightarrow> Inl 2
                             | b3 # _ \<Rightarrow>
                                 if is_cont b3
                                 then Inr ((b0 - 240) * 262144 + (b1 - 128) * 4096
                                           + (b2 - 128) * 64 + (b3 - 128), 3)
                                 else Inl 2)))
      else Inl 0)"

text \<open>
  \<open>bytes.decode("utf-8", errors=mode)\<close> on the octet values: \<open>strict\<close> raises at the
  first error, \<open>ignore\<close> skips the error range, \<open>replace\<close> puts U+FFFD in its place.
\<close>

fun utf8_decode :: "errors_mode \<Rightarrow> nat list \<Rightarrow> error + str" where
  "utf8_decode m [] = Inr []"
| "utf8_decode m (b # bs) =
     (case utf8_step b bs of
        Inr (c, k) \<Rightarrow>
          (case utf8_decode m (drop k bs) of Inl e \<Rightarrow> Inl e | Inr s \<Rightarrow> Inr (c # s))
      | Inl k \<Rightarrow>
          (case m of
             Strict \<Rightarrow> Inl UnicodeDecodeError
           | Ignore \<Rightarrow> utf8_decode m (drop k bs)
           | Replace \<Rightarrow>
               (case utf8_decode m (drop k bs) of
                  Inl e \<Rightarrow> Inl e | Inr s \<Rightarrow> Inr (65533 # s))))"


text \<open>The four single-byte and double-byte codecs of the candidate list, in strict mode.\<close>

definition latin1_decode :: "nat list \<Rightarrow> error + str" where
  "latin1_decode bs = Inr bs"

text \<open>
  The upper control block of CP1252 (bytes \<open>0x80..0x9F\<close>); five bytes are undefined
  and raise. Every other byte decodes to the code point of the same value.
\<close>

definition cp1252_high :: "nat option list" where
  "cp1252_high =
     [Some 8364, None, Some 8218, Some 402, Some 8222, Some 8230, Some 8224, Some 8225,
      Some 710, Some 8240, Some 352, Some 8249, Some 338, None, Some 381, None,
      None, Some 8216, Some 8217, Some 8220, Some 8221, Some 8226, Some 8211, Some 8212,
      Some 732, Some 8482, Some 353, Some 8250, Some 339, None, Some 382, Some 376]"

definition cp1252_char :: "nat \<Rightarrow> nat option" where
  "cp1252_char b = (if 128 \<le> b \<and> b < 160 then cp1252_high ! (b - 128) else Some b)"

fun cp1252_decode :: "nat list \<Rightarrow> error + str" where
  "cp1252_decode [] = Inr []"
| "cp1252_decode (b # bs) =
     (case cp1252_char b of
        None \<Rightarrow> Inl UnicodeDecodeError
      | Some c \<Rightarrow> (case cp1252_decode bs of Inl e \<Rightarrow> Inl e | Inr s \<Rightarrow> Inr (c # s)))"

text \<open>UTF-16: the code units of a byte stream in the given byte order.\<close>

fun utf16_units :: "bool \<Rightarrow> nat list \<Rightarrow> error + nat list" where
  "utf16_units le [] = Inr []"
| "utf16_units le [b] = Inl UnicodeDecodeError"
| "utf16_units le (b0 # b1 # bs) =
     (case utf16_units le bs of
        Inl e \<Rightarrow> Inl e
      | Inr ws \<Rightarrow> Inr ((if le then b0 + 256 * b1 else 256 * b0 + b1) # ws))"

fun utf16_combine :: "nat list \<Rightarrow> error + str" where
  "utf16_combine [] = Inr []"
| "utf16_combine (w # ws) =
     (if w < 55296 \<or> 57344 \<le> w then
        (case utf16_combine ws of Inl e \<Rightarrow> Inl e | Inr s \<Rightarrow> Inr (w # s))
      else if w < 56320 then
        (case ws of
           [] \<Rightarrow> Inl UnicodeDecodeError
         | w2 # ws2 \<Rightarrow>
             if 56320 \<le> w2 \<and> w2 < 57344 then
               (case utf16_combine ws2 of
                  Inl e \<Rightarrow> Inl e
                | Inr s \<Rightarrow> Inr ((65536 + (w - 55296) * 1024 + (w2 - 56320)) # s))
             else Inl UnicodeDecodeError)
      else Inl UnicodeDecodeError)"

definition utf16_body :: "bool \<Rightarrow> nat list \<Rightarrow> error + str" where
  "utf16_body le bs =
     (case utf16_units le bs of Inl e \<Rightarrow> Inl e | Inr ws \<Rightarrow> utf16_combine ws)"

text \<open>
  The \<open>utf-16\<close> codec as a text file uses it: the byte order mark selects the byte
  order and is dropped; a stream of two or more bytes without one raises
  \<open>UnicodeError\<close>, which is not a \<open>UnicodeDecodeError\<close>.
\<close>

fun utf16_decode :: "nat list \<Rightarrow> error + str" where
  "utf16_decode [] = Inr []"
| "utf16_decode [b] = Inl UnicodeDecodeError"
| "utf16_decode (b0 # b1 # bs) =
     (if b0 = 255 \<and> b1 = 254 then utf16_body True bs
      else if b0 = 254 \<and> b1 = 255 then utf16_body False bs
      else Inl (UnicodeError (u ''UTF-16 stream does not start with BOM'')))"

datatype codec = UTF8 | Latin1 | CP1252 | ISO8859_1 | UTF16

text \<open>\<open>latin-1\<close> and \<open>iso-8859-1\<close> are two names of one codec.\<close>

fun decode :: "codec \<Rightarrow> bytes \<Rightarrow> error + str" where
  "decode UTF8 bs = utf8_decode Strict (map unat bs)"
| "decode Latin1 bs = latin1_decode (map unat bs)"
| "decode CP1252 bs = cp1252_decode (map unat bs)"
| "decode ISO8859_1 bs = latin1_decode (map unat bs)"
| "decode UTF16 bs = utf16_decode (map unat bs)"

text \<open>
  Reading a text file (\<open>open(path, "r", encoding=enc).read()\<close>) translates the line
  endings \<open>\r\n\<close> and \<open>\r\<close> to \<open>\n\<close> after decoding.
\<close>

fun translate_newlines :: "str \<Rightarrow> str" where
  "translate_newlines [] = []"
| "translate_newlines [c] = (if c = 13 then [10] else [c])"
| "translate_newlines (c # d # s) =
     (if c = 13 then (if d = 10 then 10 # translate_newlines s
                      else 10 # translate_newlines (d # s))
      else c # translate_newlines (d # s))"

definition read_text :: "(str \<rightharpoonup> bytes) \<Rightarrow> str \<Rightarrow> codec \<Rightarrow> error + str" where
  "read_text fs path enc =
     (case fs path of
        None \<Rightarrow> Inl (OSError path)
      | Some bs \<Rightarrow>
          (case decode enc bs of Inl e \<Rightarrow> Inl e | Inr s \<Rightarrow> Inr (translate_newlines s)))"

definition read_binary :: "(str \<rightharpoonup> bytes) \<Rightarrow> str \<Rightarrow> error + bytes" where
  "read_binary fs path = (case fs path of None \<Rightarrow> Inl (OSError path) | Some bs \<Rightarrow> Inr bs)"

section \<open>The runtime environment\<close>

text \<open>A parsed DOCX document: its paragraphs, and its tables as rows of cell texts.\<close>

record docx_document =
  paragraphs :: "str list"
  tables :: "str list list list"

text \<open>
  The optional third-party modules (\<open>None\<close>: not installed) with what they return for
  a path, the Unicode lowercase mapping, and whether the submodule \<open>importlib.util\<close> has
  been loaded by some import of the process: the source only does \<open>import importlib\<close>,
  which does not load it.
\<close>

record libs =
  importlib_util :: bool
  fitz :: "(str \<Rightarrow> error + str list) option"
  pypdf2 :: "(str \<Rightarrow> error + str option list) option"
  docx :: "(str \<Rightarrow> error + docx_document) option"
  textract :: "(str \<Rightarrow> error + bytes) option"
  ucd_lower :: "str \<Rightarrow> str"

section \<open>Text extraction\<close>

text \<open>
  \<open>_import_or_raise\<close>: \<open>importlib.util.find_spec(module)\<close> raises \<open>AttributeError\<close>
  when \<open>importlib.util\<close> is not loaded, whether the module is installed or not.
\<close>

definition import_or_raise :: "bool \<Rightarrow> 'm option \<Rightarrow> str \<Rightarrow> error + 'm" where
  "import_or_raise util_loaded module install_hint =
     (if \<not> util_loaded
      then Inl (AttributeError (u ''module '' @ [39] @ u ''importlib'' @ [39]
                                @ u '' has no attribute '' @ [39] @ u ''util'' @ [39]))
      else (case module of None \<Rightarrow> Inl (ImportError install_hint) | Some m \<Rightarrow> Inr m))"

definition is_ImportError :: "error \<Rightarrow> bool" where
  "is_ImportError e = (case e of ImportError _ \<Rightarrow> True | _ \<Rightarrow> False)"

definition extract_pdf_pypdf2 :: "libs \<Rightarrow> str \<Rightarrow> error + str" where
  "extract_pdf_pypdf2 L file_path =
     (let hint = u ''Install a PDF library: pip install pymupdf or pip install PyPDF2'' in
      case pypdf2 L of
        None \<Rightarrow> Inl (ImportError hint)
      | Some reader \<Rightarrow>
          (case reader file_path of
             Inl e \<Rightarrow> if is_ImportError e then Inl (ImportError hint) else Inl e
           | Inr pages \<Rightarrow>
               Inr (concat (map (\<lambda>t. case t of None \<Rightarrow> [] | Some s \<Rightarrow> s) pages))))"

definition extract_pdf :: "libs \<Rightarrow> str \<Rightarrow> error + str" where
  "extract_pdf L file_path =
     (case fitz L of
        None \<Rightarrow> extract_pdf_pypdf2 L file_path
      | Some fopen \<Rightarrow>
          (case fopen file_path of
             Inl e \<Rightarrow> if is_ImportError e then extract_pdf_pypdf2 L file_path else Inl e
           | Inr pages \<Rightarrow> Inr (concat pages)))"

text \<open>The two nested \<open>for\<close> loops over tables and rows, appending to \<open>text\<close>.\<close>

fun docx_rows :: "str \<Rightarrow> str list list \<Rightarrow> str" where
  "docx_rows text [] = text"
| "docx_rows text (row # rows) = docx_rows (text @ [10] @ join [9] row) rows"

fun docx_tables :: "str \<Rightarrow> str list list list \<Rightarrow> str" where
  "docx_tables text [] = text"
| "docx_tables text (table # ts) = docx_tables (docx_rows text table) ts"

definition extract_docx :: "libs \<Rightarrow> str \<Rightarrow> error + str" where
  "extract_docx L file_path =
     (case import_or_raise (importlib_util L) (docx L) (u ''Install: pip install python-docx to parse DOCX files.'') of
        Inl e \<Rightarrow> Inl e
      | Inr Document \<Rightarrow>
          (case Document file_path of
             Inl e \<Rightarrow> Inl e
           | Inr doc \<Rightarrow> Inr (docx_tables (join [10] (paragraphs doc)) (tables doc))))"

definition extract_doc :: "libs \<Rightarrow> str \<Rightarrow> error + str" where
  "extract_doc L file_path =
     (case import_or_raise (importlib_util L) (textract L) (u ''Install: pip install textract to parse legacy .doc files.'') of
        Inl e \<Rightarrow> Inl e
      | Inr process \<Rightarrow>
          (case process file_path of
             Inl e \<Rightarrow> Inl e
           | Inr out \<Rightarrow> utf8_decode Ignore (map unat out)))"

text \<open>
  The loop over the candidate encodings: a \<open>UnicodeDecodeError\<close> moves on to the next
  candidate, any other exception propagates, and after the last candidate the file is
  read as bytes and decoded as UTF-8 with \<open>errors="ignore"\<close>.
\<close>

fun try_encodings :: "(str \<rightharpoonup> bytes) \<Rightarrow> str \<Rightarrow> codec list \<Rightarrow> error + str" where
  "try_encodings fs file_path [] =
     (case read_binary fs file_path of
        Inl e \<Rightarrow> Inl e
      | Inr bs \<Rightarrow> utf8_decode Ignore (map unat bs))"
| "try_encodings fs file_path (enc # encs) =
     (case read_text fs file_path enc of
        Inr s \<Rightarrow> Inr s
      | Inl e \<Rightarrow> if e = UnicodeDecodeError then try_encodings fs file_path encs else Inl e)"

definition candidates :: "codec list" where
  "candidates = [UTF8, Latin1, CP1252, ISO8859_1, UTF16]"

definition extract_txt :: "(str \<rightharpoonup> bytes) \<Rightarrow> str \<Rightarrow> error + str" where
  "extract_txt fs file_path = try_encodings fs file_path candidates"

definition unsupported_msg :: "str \<Rightarrow> str" where
  "unsupported_msg ext =
     u ''Unsupported file type: '' @ ext @ u '' (supported: .pdf, .docx, .doc, .txt)''"

definition extract_text :: "libs \<Rightarrow> (str \<rightharpoonup> bytes) \<Rightarrow> str \<Rightarrow> error + str" where
  "extract_text L fs file_path =
     (let ext = lower (ucd_lower L) (path_suffix file_path) in
      if ext = u ''.pdf'' then extract_pdf L file_path
      else if ext = u ''.docx'' then extract_docx L file_path
      else if ext = u ''.doc'' then extract_doc L file_path
      else if ext = u ''.txt'' then extract_txt fs file_path
      else Inl (ValueError (unsupported_msg ext)))"


section \<open>Text encoding\<close>

text \<open>
  \<open>str.encode(encoding)\<close> in strict mode, as writing a text file and the round trips of
  the specification use it. UTF-8 refuses surrogate code points.
\<close>

definition utf8_encode_char :: "nat \<Rightarrow> nat list option" where
  "utf8_encode_char c =
     (if c < 128 then Some [c]
      else if c < 2048 then Some [192 + c div 64, 128 + c mod 64]
      else if c < 65536 then
        (if 55296 \<le> c \<and> c < 57344 then None
         else Some [224 + c div 4096, 128 + (c div 64) mod 64, 128 + c mod 64])
      else if c < 1114112 then
        Some [240 + c div 262144, 128 + (c div 4096) mod 64, 128 + (c div 64) mod 64,
              128 + c mod 64]
      else None)"

fun utf8_encode_nat :: "str \<Rightarrow> error + nat list" where
  "utf8_encode_nat [] = Inr []"
| "utf8_encode_nat (c # s) =
     (case utf8_encode_char c of
        None \<Rightarrow> Inl UnicodeEncodeError
      | Some bs \<Rightarrow>
          (case utf8_encode_nat s of Inl e \<Rightarrow> Inl e | Inr r \<Rightarrow> Inr (bs @ r)))"

definition to_bytes :: "error + nat list \<Rightarrow> error + bytes" where
  "to_bytes r = (case r of Inl e \<Rightarrow> Inl e | Inr ns \<Rightarrow> Inr (map of_nat ns))"

definition utf8_encode :: "str \<Rightarrow> error + bytes" where
  "utf8_encode s = to_bytes (utf8_encode_nat s)"

fun latin1_encode_nat :: "str \<Rightarrow> error + nat list" where
  "latin1_encode_nat [] = Inr []"
| "latin1_encode_nat (c # s) =
     (if c < 256 then
        (case latin1_encode_nat s of Inl e \<Rightarrow> Inl e | Inr r \<Rightarrow> Inr (c # r))
      else Inl UnicodeEncodeError)"

text \<open>The byte of a code point in CP1252: the inverse of \<open>cp1252_char\<close>.\<close>

definition cp1252_byte :: "nat \<Rightarrow> nat option" where
  "cp1252_byte c =
     (if c < 128 \<or> (160 \<le> c \<and> c < 256) then Some c
      else map_option (\<lambda>i. 128 + i) (List.find (\<lambda>i. cp1252_high ! i = Some c) [0..<32]))"

fun cp1252_encode_nat :: "str \<Rightarrow> error + nat list" where
  "cp1252_encode_nat [] = Inr []"
| "cp1252_encode_nat (c # s) =
     (case cp1252_byte c of
        None \<Rightarrow> Inl UnicodeEncodeError
      | Some b \<Rightarrow>
          (case cp1252_encode_nat s of Inl e \<Rightarrow> Inl e | Inr r \<Rightarrow> Inr (b # r)))"

text \<open>
  The \<open>utf-16\<close> codec writes a byte order mark and then the code units in the byte
  order of the machine (little-endian here).
\<close>

definition utf16_units_of :: "nat \<Rightarrow> nat list option" where
  "utf16_units_of c =
     (if c < 55296 \<or> (57344 \<le> c \<and> c < 65536) then Some [c]
      else if 65536 \<le> c \<and> c < 1114112 then
        Some [55296 + (c - 65536) div 1024, 56320 + (c - 65536) mod 1024]
      else None)"

fun utf16_le_encode_nat :: "str \<Rightarrow> error + nat list" where
  "utf16_le_encode_nat [] = Inr []"
| "utf16_le_encode_nat (c # s) =
     (case utf16_units_of c of
        None \<Rightarrow> Inl UnicodeEncodeError
      | Some ws \<Rightarrow>
          (case utf16_le_encode_nat s of
             Inl e \<Rightarrow> Inl e
           | Inr r \<Rightarrow> Inr (concat (map (\<lambda>w. [w mod 256, w div 256]) ws) @ r)))"

fun encode :: "codec \<Rightarrow> str \<Rightarrow> error + bytes" where
  "encode UTF8 s = utf8_encode s"
| "encode Latin1 s = to_bytes (latin1_encode_nat s)"
| "encode CP1252 s = to_bytes (cp1252_encode_nat s)"
| "encode ISO8859_1 s = to_bytes (latin1_encode_nat s)"
| "encode UTF16 s =
     to_bytes (case utf16_le_encode_nat s of Inl e \<Rightarrow> Inl e | Inr r \<Rightarrow> Inr (255 # 254 # r))"

section \<open>JSON values\<close>

text \<open>
  The values \<open>json.loads\<close> returns. A \<open>dict\<close> is the list of its items in insertion
  order. A float is kept as the text that the encoder writes for it (\<open>float.__repr__\<close>,
  or \<open>NaN\<close>, \<open>Infinity\<close>, \<open>-Infinity\<close>). An \<open>int\<close> that \<open>json.loads\<close> has read is
  within the digit limit, so that writing it back does not exceed the limit either.
\<close>

datatype json =
    JNull
  | JBool bool
  | JInt int
  | JFloat str
  | JStr str
  | JArr "json list"
  | JObj "(str \<times> json) list"

subsection \<open>\<open>json.dump(data, f, indent=2, ensure_ascii=False)\<close>\<close>

definition hex_digit :: "nat \<Rightarrow> nat" where
  "hex_digit d = (if d < 10 then 48 + d else 87 + d)"

text \<open>
  With \<open>ensure_ascii=False\<close> only the quote, the backslash and the control characters
  below U+0020 are escaped; every other code point is written as it is.
\<close>

definition escape_char :: "nat \<Rightarrow> str" where
  "escape_char c =
     (if c = 34 then [92, 34]
      else if c = 92 then [92, 92]
      else if c = 10 then [92, 110]
      else if c = 13 then [92, 114]
      else if c = 9 then [92, 116]
      else if c = 8 then [92, 98]
      else if c = 12 then [92, 102]
      else if c < 32 then [92, 117, 48, 48, hex_digit (c div 16), hex_digit (c mod 16)]
      else [c])"

definition encode_basestring :: "str \<Rightarrow> str" where
  "encode_basestring s = 34 # concat (map escape_char s) @ [34]"

fun digits :: "nat \<Rightarrow> str" where
  "digits n = (if n < 10 then [48 + n] else digits (n div 10) @ [48 + n mod 10])"

declare digits.simps [simp del]

definition int_repr :: "int \<Rightarrow> str" where
  "int_repr i = (if i < 0 then 45 # digits (nat (- i)) else digits (nat i))"

definition newline_indent :: "nat \<Rightarrow> str" where
  "newline_indent level = 10 # replicate (2 * level) 32"

text \<open>
  The encoder at nesting depth \<open>level\<close> with \<open>indent=2\<close>: the item separator is a comma
  followed by a new line and the indentation, the key separator is \<open>": "\<close>.
  \<open>iterencode_list\<close> and \<open>iterencode_dict\<close> write the items after the first one.
\<close>

fun iterencode :: "nat \<Rightarrow> json \<Rightarrow> str"
  and iterencode_list :: "nat \<Rightarrow> json list \<Rightarrow> str"
  and iterencode_dict :: "nat \<Rightarrow> (str \<times> json) list \<Rightarrow> str" where
  "iterencode level JNull = u ''null''"
| "iterencode level (JBool b) = (if b then u ''true'' else u ''false'')"
| "iterencode level (JInt i) = int_repr i"
| "iterencode level (JFloat r) = r"
| "iterencode level (JStr s) = encode_basestring s"
| "iterencode level (JArr []) = u ''[]''"
| "iterencode level (JArr (v # vs)) =
     [91] @ newline_indent (Suc level) @ iterencode (Suc level) v
     @ iterencode_list (Suc level) vs @ newline_indent level @ [93]"
| "iterencode level (JObj []) = u ''{}''"
| "iterencode level (JObj ((k, v) # kvs)) =
     [123] @ newline_indent (Suc level) @ encode_basestring k @ [58, 32]
     @ iterencode (Suc level) v @ iterencode_dict (Suc level) kvs
     @ newline_indent level @ [125]"
| "iterencode_list level [] = []"
| "iterencode_list level (v # vs) =
     [44] @ newline_indent level @ iterencode level v @ iterencode_list level vs"
| "iterencode_dict level [] = []"
| "iterencode_dict level ((k, v) # kvs) =
     [44] @ newline_indent level @ encode_basestring k @ [58, 32] @ iterencode level v
     @ iterencode_dict level kvs"

definition json_dumps :: "json \<Rightarrow> str" where
  "json_dumps data = iterencode 0 data"

subsection \<open>\<open>json.loads\<close>\<close>

definition is_ws :: "nat \<Rightarrow> bool" where
  "is_ws c \<longleftrightarrow> c = 32 \<or> c = 9 \<or> c = 10 \<or> c = 13"

definition skip_ws :: "str \<Rightarrow> str" where
  "skip_ws s = dropWhile is_ws s"

definition is_digit :: "nat \<Rightarrow> bool" where
  "is_digit c \<longleftrightarrow> 48 \<le> c \<and> c \<le> 57"

definition hex_val :: "nat \<Rightarrow> nat option" where
  "hex_val c =
     (if 48 \<le> c \<and> c \<le> 57 then Some (c - 48)
      else if 97 \<le> c \<and> c \<le> 102 then Some (c - 87)
      else if 65 \<le> c \<and> c \<le> 70 then Some (c - 55)
      else None)"

text \<open>The four hexadecimal digits of a \<open>\uXXXX\<close> escape and what follows them.\<close>

definition hex4 :: "str \<Rightarrow> (nat \<times> str) option" where
  "hex4 s =
     (case s of
        a # b # c # d # r \<Rightarrow>
          (case (hex_val a, hex_val b, hex_val c, hex_val d) of
             (Some x, Some y, Some z, Some w) \<Rightarrow> Some (((x * 16 + y) * 16 + z) * 16 + w, r)
           | _ \<Rightarrow> None)
      | _ \<Rightarrow> None)"

definition unescape :: "nat \<Rightarrow> nat option" where
  "unescape e =
     (if e = 34 then Some 34
      else if e = 92 then Some 92
      else if e = 47 then Some 47
      else if e = 98 then Some 8
      else if e = 102 then Some 12
      else if e = 110 then Some 10
      else if e = 114 then Some 13
      else if e = 116 then Some 9
      else None)"

definition cons_chr :: "nat \<Rightarrow> (str \<times> str) option \<Rightarrow> (str \<times> str) option" where
  "cons_chr c res = (case res of None \<Rightarrow> None | Some (s, r) \<Rightarrow> Some (c # s, r))"

lemma hex4_length: "hex4 s = Some (v, r) \<Longrightarrow> length r < length s"
  by (auto simp: hex4_def split: list.splits option.splits)

text \<open>
  \<open>scanstring\<close> in strict mode, from the character after the opening quote: the decoded
  string and the input after the closing quote. An escaped high surrogate followed by an
  escaped low surrogate is one code point; a control character is an error.
\<close>

function scanstring :: "str \<Rightarrow> (str \<times> str) option" where
  "scanstring [] = None"
| "scanstring (c # cs) =
     (if c = 34 then Some ([], cs)
      else if c = 92 then
        (case cs of
           [] \<Rightarrow> None
         | e # es \<Rightarrow>
             if e = 117 then
               (case hex4 es of
                  None \<Rightarrow> None
                | Some (c1, r) \<Rightarrow>
                    if 55296 \<le> c1 \<and> c1 \<le> 56319 \<and> 6 < length r \<and> take 2 r = [92, 117] then
                      (case hex4 (drop 2 r) of
                         None \<Rightarrow> None
                       | Some (c2, r2) \<Rightarrow>
                           if 56320 \<le> c2 \<and> c2 \<le> 57343
                           then cons_chr (65536 + (c1 - 55296) * 1024 + (c2 - 56320))
                                  (scanstring r2)
                           else cons_chr c1 (scanstring r))
                    else cons_chr c1 (scanstring r))
             else (case unescape e of
                     None \<Rightarrow> None
                   | Some x \<Rightarrow> cons_chr x (scanstring es)))
      else if c < 32 then None
      else cons_chr c (scanstring cs))"
  by pat_completeness auto
termination
proof (relation "measure length")
  show "wf (measure length)" by simp
next
  fix c cs e es x2 c1 r x2a c2 r2
  assume "hex4 es = Some x2" "(c1, r) = x2" "hex4 (drop 2 r) = Some x2a" "(c2, r2) = x2a"
    "cs = e # es"
  then have "length r < length es" and "length r2 < length (drop 2 r)"
    using hex4_length [of es c1 r] hex4_length [of "drop 2 r" c2 r2] by simp_all
  then show "(r2, c # cs) \<in> measure length" using \<open>cs = e # es\<close> by simp
qed (auto dest: hex4_length)

definition starts_with :: "str \<Rightarrow> str \<Rightarrow> bool" where
  "starts_with p s \<longleftrightarrow> take (length p) s = p"

definition nat_of_digits :: "str \<Rightarrow> nat" where
  "nat_of_digits ds = foldl (\<lambda>a d. 10 * a + (d - 48)) 0 ds"

text \<open>
  What the interpreter fixes for the scanner: how many nested arrays and objects it
  may enter before \<open>RecursionError\<close>, the longest integer literal that is converted
  (\<open>sys.get_int_max_str_digits()\<close>, 0 for no limit), and the text that the encoder writes
  for the float that a float literal denotes.
\<close>

record runtime =
  recursion_limit :: nat
  int_max_str_digits :: nat
  floatstr :: "str \<Rightarrow> str"

text \<open>
  The ways a scan fails: a syntax error (\<open>JSONDecodeError\<close>), nesting beyond the
  recursion limit (\<open>RecursionError\<close>), and an integer literal of \<open>n\<close> digits beyond the
  digit limit (\<open>ValueError\<close>).
\<close>

datatype scan_error = Syntax | TooDeep | TooBig nat

text \<open>
  The fraction and the exponent after the integer digits \<open>ip\<close> of a number; an exponent
  without digits is not part of the number. Without either the number is an \<open>int\<close>,
  converted only when its digits are within the limit.
\<close>

definition number_tail ::
  "runtime \<Rightarrow> bool \<Rightarrow> str \<Rightarrow> str \<Rightarrow> scan_error + json \<times> str" where
  "number_tail rt neg ip r =
     (let (frac, r1) =
            (case r of
               p # f # t \<Rightarrow>
                 if p = 46 \<and> is_digit f
                 then (p # f # takeWhile is_digit t, dropWhile is_digit t) else ([], r)
             | _ \<Rightarrow> ([], r));
          (ex, r2) =
            (case r1 of
               e # t \<Rightarrow>
                 if e = 101 \<or> e = 69 then
                   (let (sg, t1) =
                          (case t of
                             g # t' \<Rightarrow> if g = 45 \<or> g = 43 then ([g], t') else ([], t)
                           | [] \<Rightarrow> ([], t));
                        ds = takeWhile is_digit t1
                    in if ds \<noteq> [] then (e # sg @ ds, dropWhile is_digit t1) else ([], r1))
                 else ([], r1)
             | [] \<Rightarrow> ([], r1))
      in if frac = [] \<and> ex = [] then
           (if int_max_str_digits rt \<noteq> 0 \<and> int_max_str_digits rt < length ip
            then Inl (TooBig (length ip))
            else Inr (JInt (if neg then - int (nat_of_digits ip) else int (nat_of_digits ip)),
                      r2))
         else Inr (JFloat (floatstr rt ((if neg then [45] else []) @ ip @ frac @ ex)), r2))"

definition match_number :: "runtime \<Rightarrow> str \<Rightarrow> scan_error + json \<times> str" where
  "match_number rt s =
     (let neg = (s \<noteq> [] \<and> hd s = 45); s1 = (if neg then tl s else s) in
      case s1 of
        [] \<Rightarrow> Inl Syntax
      | d # t \<Rightarrow>
          if 49 \<le> d \<and> d \<le> 57
          then number_tail rt neg (d # takeWhile is_digit t) (dropWhile is_digit t)
          else if d = 48 then number_tail rt neg [48] t
          else Inl Syntax)"

text \<open>\<open>dict[key] = value\<close>: a key already present keeps its place and takes the new value.\<close>

fun dict_set :: "(str \<times> json) list \<Rightarrow> str \<Rightarrow> json \<Rightarrow> (str \<times> json) list" where
  "dict_set [] k v = [(k, v)]"
| "dict_set ((k', v') # kvs) k v =
     (if k' = k then (k, v) # kvs else (k', v') # dict_set kvs k v)"

definition with_rest ::
  "('a \<Rightarrow> json) \<Rightarrow> scan_error + 'a \<times> str \<Rightarrow> scan_error + json \<times> str" where
  "with_rest f res = (case res of Inl e \<Rightarrow> Inl e | Inr (x, r) \<Rightarrow> Inr (f x, r))"

definition scanned_string :: "(str \<times> str) option \<Rightarrow> scan_error + json \<times> str" where
  "scanned_string res = (case res of None \<Rightarrow> Inl Syntax | Some (t, r) \<Rightarrow> Inr (JStr t, r))"

text \<open>
  The scanner. \<open>scan_once\<close> reads one value at the head of the input, \<open>parse_array\<close> the
  items of an array from its first item on, \<open>parse_object\<close> the members of an object
  from its first key on, adding them to the dictionary read so far. Each returns the
  input left over. The argument \<open>d\<close> is the number of arrays and objects that may still
  be entered. The first argument bounds the number of nested calls; two for each
  character of the input are never used up.
\<close>

fun scan_once :: "nat \<Rightarrow> runtime \<Rightarrow> nat \<Rightarrow> str \<Rightarrow> scan_error + json \<times> str"
  and parse_array :: "nat \<Rightarrow> runtime \<Rightarrow> nat \<Rightarrow> str \<Rightarrow> scan_error + json list \<times> str"
  and parse_object ::
    "nat \<Rightarrow> runtime \<Rightarrow> nat \<Rightarrow> (str \<times> json) list \<Rightarrow> str
       \<Rightarrow> scan_error + (str \<times> json) list \<times> str"
  where
  "scan_once 0 rt d s = Inl Syntax"
| "scan_once (Suc n) rt d s =
     (case s of
        [] \<Rightarrow> Inl Syntax
      | c # cs \<Rightarrow>
          if c = 34 then scanned_string (scanstring cs)
          else if c = 123 then
            (if d = 0 then Inl TooDeep
             else
               (case skip_ws cs of
                  [] \<Rightarrow> Inl Syntax
                | x # xs \<Rightarrow>
                    if x = 125 then Inr (JObj [], xs)
                    else with_rest JObj (parse_object n rt (d - 1) [] (x # xs))))
          else if c = 91 then
            (if d = 0 then Inl TooDeep
             else
               (case skip_ws cs of
                  [] \<Rightarrow> Inl Syntax
                | x # xs \<Rightarrow>
                    if x = 93 then Inr (JArr [], xs)
                    else with_rest JArr (parse_array n rt (d - 1) (x # xs))))
          else if starts_with (u ''null'') s then Inr (JNull, drop 4 s)
          else if starts_with (u ''true'') s then Inr (JBool True, drop 4 s)
          else if starts_with (u ''false'') s then Inr (JBool False, drop 5 s)
          else if starts_with (u ''NaN'') s then Inr (JFloat (u ''NaN''), drop 3 s)
          else if starts_with (u ''Infinity'') s then Inr (JFloat (u ''Infinity''), drop 8 s)
          else if starts_with (u ''-Infinity'') s then Inr (JFloat (u ''-Infinity''), drop 9 s)
          else match_number rt s)"
| "parse_array 0 rt d s = Inl Syntax"
| "parse_array (Suc n) rt d s =
     (case scan_once n rt d s of
        Inl e \<Rightarrow> Inl e
      | Inr (v, r) \<Rightarrow>
          (case skip_ws r of
             [] \<Rightarrow> Inl Syntax
           | x # xs \<Rightarrow>
               if x = 93 then Inr ([v], xs)
               else if x = 44 then
                 (case parse_array n rt d (skip_ws xs) of
                    Inl e \<Rightarrow> Inl e
                  | Inr (vs, r') \<Rightarrow> Inr (v # vs, r'))
               else Inl Syntax))"
| "parse_object 0 rt d acc s = Inl Syntax"
| "parse_object (Suc n) rt d acc s =
     (case s of
        [] \<Rightarrow> Inl Syntax
      | q # qs \<Rightarrow>
          if q \<noteq> 34 then Inl Syntax
          else
            (case scanstring qs of
               None \<Rightarrow> Inl Syntax
             | Some (key, r) \<Rightarrow>
                 (case skip_ws r of
                    [] \<Rightarrow> Inl Syntax
                  | colon # r1 \<Rightarrow>
                      if colon \<noteq> 58 then Inl Syntax
                      else
                        (case scan_once n rt d (skip_ws r1) of
                           Inl e \<Rightarrow> Inl e
                         | Inr (v, r2) \<Rightarrow>
                             (case skip_ws r2 of
                                [] \<Rightarrow> Inl Syntax
                              | x # xs \<Rightarrow>
                                  if x = 125 then Inr (dict_set acc key v, xs)
                                  else if x = 44
                                  then parse_object n rt d (dict_set acc key v) (skip_ws xs)
                                  else Inl Syntax)))))"

text \<open>The exception that \<open>json.loads(s)\<close> raises for a failed scan.\<close>

definition digits_message :: "nat \<Rightarrow> nat \<Rightarrow> str" where
  "digits_message limit n =
     u ''Exceeds the limit ('' @ digits limit
     @ u '' digits) for integer string conversion: value has '' @ digits n
     @ u '' digits; use sys.set_int_max_str_digits() to increase the limit''"

definition scan_exception :: "runtime \<Rightarrow> str \<Rightarrow> scan_error \<Rightarrow> error" where
  "scan_exception rt s e =
     (case e of
        Syntax \<Rightarrow> JSONDecodeError s
      | TooDeep \<Rightarrow> RecursionError
      | TooBig n \<Rightarrow> ValueError (digits_message (int_max_str_digits rt) n))"

text \<open>
  \<open>json.loads(s)\<close>: a leading byte order mark is refused, white space around the value
  is skipped, and anything after it is an error. A syntax error is a \<open>JSONDecodeError\<close>
  that carries the document \<open>s\<close>; the literals \<open>NaN\<close>, \<open>Infinity\<close> and \<open>-Infinity\<close> are
  accepted.
\<close>

definition json_loads :: "runtime \<Rightarrow> str \<Rightarrow> error + json" where
  "json_loads rt s =
     (if s \<noteq> [] \<and> hd s = 65279 then Inl (JSONDecodeError s)
      else
        (case scan_once (2 * length s + 2) rt (recursion_limit rt) (skip_ws s) of
           Inl e \<Rightarrow> Inl (scan_exception rt s e)
         | Inr (obj, r) \<Rightarrow> if skip_ws r = [] then Inr obj else Inl (JSONDecodeError s)))"

text \<open>\<open>json.load(open(path, "r", encoding="utf-8"))\<close>, as the caller re-reads the output.\<close>

definition json_load :: "runtime \<Rightarrow> (str \<rightharpoonup> bytes) \<Rightarrow> str \<Rightarrow> error + json" where
  "json_load rt fs path =
     (case read_text fs path UTF8 of Inl e \<Rightarrow> Inl e | Inr s \<Rightarrow> json_loads rt s)"

section \<open>The extraction client\<close>

text \<open>The schema literal of \<open>llm_extract_resume\<close>.\<close>

definition string_type :: json where
  "string_type = JObj [(u ''type'', JStr (u ''string''))]"

definition string_or_null :: json where
  "string_or_null = JObj [(u ''type'', JArr [JStr (u ''string''), JStr (u ''null'')])]"

definition string_array :: json where
  "string_array =
     JObj [(u ''type'', JStr (u ''array'')), (u ''items'', string_type), (u ''minItems'', JInt 0)]"

definition experience_schema :: json where
  "experience_schema =
     JObj [(u ''type'', JStr (u ''array'')), (u ''minItems'', JInt 0),
           (u ''items'',
            JObj [(u ''type'', JStr (u ''object'')), (u ''additionalProperties'', JBool False),
                  (u ''properties'',
                   JObj [(u ''position'', string_type), (u ''company'', string_or_null),
                         (u ''duration'', string_or_null), (u ''description'', string_array)]),
                  (u ''required'',
                   JArr [JStr (u ''position''), JStr (u ''company''), JStr (u ''duration''),
                         JStr (u ''description'')])])]"

definition education_schema :: json where
  "education_schema =
     JObj [(u ''type'', JStr (u ''array'')), (u ''minItems'', JInt 0),
           (u ''items'',
            JObj [(u ''type'', JStr (u ''object'')), (u ''additionalProperties'', JBool False),
                  (u ''properties'',
                   JObj [(u ''degree'', string_or_null), (u ''institution'', string_or_null),
                         (u ''year'', string_or_null), (u ''field'', string_or_null)]),
                  (u ''required'',
                   JArr [JStr (u ''degree''), JStr (u ''institution''), JStr (u ''year''),
                         JStr (u ''field'')])])]"

definition required_keys :: "str list" where
  "required_keys =
     [u ''name'', u ''email'', u ''phone'', u ''linkedin'', u ''summary'', u ''skills'',
      u ''experience'', u ''education'', u ''certificates'', u ''languages'',
      u ''detected_language'']"

definition schema :: json where
  "schema =
     JObj [(u ''type'', JStr (u ''object'')), (u ''additionalProperties'', JBool False),
           (u ''properties'',
            JObj [(u ''name'', string_type), (u ''email'', string_or_null),
                  (u ''phone'', string_or_null), (u ''linkedin'', string_or_null),
                  (u ''summary'', string_or_null), (u ''skills'', string_array),
                  (u ''experience'', experience_schema), (u ''education'', education_schema),
                  (u ''certificates'', string_array), (u ''languages'', string_array),
                  (u ''detected_language'', string_type)]),
           (u ''required'', JArr (map JStr required_keys))]"

text \<open>
  What validating against that schema means for a value: an object with exactly the
  required keys, each of the type the schema gives it.
\<close>

definition is_string :: "json \<Rightarrow> bool" where
  "is_string v = (case v of JStr _ \<Rightarrow> True | _ \<Rightarrow> False)"

definition is_string_or_null :: "json \<Rightarrow> bool" where
  "is_string_or_null v = (case v of JStr _ \<Rightarrow> True | JNull \<Rightarrow> True | _ \<Rightarrow> False)"

definition is_string_array :: "json \<Rightarrow> bool" where
  "is_string_array v = (case v of JArr xs \<Rightarrow> list_all is_string xs | _ \<Rightarrow> False)"

definition has_keys :: "str list \<Rightarrow> (str \<times> json) list \<Rightarrow> bool" where
  "has_keys ks kvs \<longleftrightarrow> distinct (map fst kvs) \<and> set (map fst kvs) = set ks"

definition experience_item :: "json \<Rightarrow> bool" where
  "experience_item v =
     (case v of
        JObj kvs \<Rightarrow>
          has_keys [u ''position'', u ''company'', u ''duration'', u ''description''] kvs
          \<and> list_all (\<lambda>(k, x). if k = u ''position'' then is_string x
                               else if k = u ''description'' then is_string_array x
                               else is_string_or_null x) kvs
      | _ \<Rightarrow> False)"

definition education_item :: "json \<Rightarrow> bool" where
  "education_item v =
     (case v of
        JObj kvs \<Rightarrow>
          has_keys [u ''degree'', u ''institution'', u ''year'', u ''field''] kvs
          \<and> list_all (\<lambda>(k, x). is_string_or_null x) kvs
      | _ \<Rightarrow> False)"

definition is_array_of :: "(json \<Rightarrow> bool) \<Rightarrow> json \<Rightarrow> bool" where
  "is_array_of item v = (case v of JArr xs \<Rightarrow> list_all item xs | _ \<Rightarrow> False)"

definition property_ok :: "str \<Rightarrow> json \<Rightarrow> bool" where
  "property_ok k x =
     (if k = u ''name'' \<or> k = u ''detected_language'' then is_string x
      else if k = u ''skills'' \<or> k = u ''certificates'' \<or> k = u ''languages''
      then is_string_array x
      else if k = u ''experience'' then is_array_of experience_item x
      else if k = u ''education'' then is_array_of education_item x
      else is_string_or_null x)"

definition schema_valid :: "json \<Rightarrow> bool" where
  "schema_valid v =
     (case v of
        JObj kvs \<Rightarrow> has_keys required_keys kvs \<and> list_all (\<lambda>(k, x). property_ok k x) kvs
      | _ \<Rightarrow> False)"

text \<open>The request of \<open>client.chat.completions.create\<close>.\<close>

record request =
  api_key :: str
  model :: str
  system_message :: str
  user_message :: str
  json_schema :: json
  strict :: bool
  temperature :: int

text \<open>
  The process environment: the optional modules, the OpenAI client (\<open>None\<close>: the
  package is not installed) as the function from a request to the message contents of
  the choices of the response, the environment variables, the paths that can be opened
  for writing, and what a \<open>json.dump\<close> that raises has already put into the file.
\<close>

record env =
  modules :: libs
  runtime :: runtime
  openai :: "(request \<Rightarrow> error + str option list) option"
  environ :: "str \<rightharpoonup> str"
  writable :: "str \<Rightarrow> bool"
  partial_output :: "json \<Rightarrow> bytes"

text \<open>What the pipeline changes: the files, and the requests sent over the network.\<close>

record world =
  files :: "str \<rightharpoonup> bytes"
  net_calls :: "request list"

definition system_prompt :: str where
  "system_prompt = u ''Extract the resume into a single JSON object that matches the schema exactly; output only valid JSON.''"

definition user_prompt :: "str \<Rightarrow> str" where
  "user_prompt resume_text =
     [10] @ u ''Resume:'' @ [10, 34, 34, 34] @ resume_text @ [34, 34, 34, 10, 10]
     @ u ''Rules:'' @ [10]
     @ u ''- Detect primary language as ISO-2 (e.g., '' @ [39] @ u ''en'' @ [39] @ u '', ''
     @ [39] @ u ''de'' @ [39] @ u '', '' @ [39] @ u ''tr'' @ [39] @ u ''); default to ''
     @ [39] @ u ''en'' @ [39] @ u '' if unclear.'' @ [10]
     @ u ''- Normalize LinkedIn as '' @ [39] @ u ''linkedin.com/in/<handle>'' @ [39]
     @ u '' when present.'' @ [10]
     @ u ''- Use null for missing fields.'' @ [10]
     @ u ''- Return ONLY valid JSON conforming to the provided schema.'' @ [10]"

definition make_request :: "str \<Rightarrow> str \<Rightarrow> request" where
  "make_request key resume_text =
     \<lparr>api_key = key, model = u ''gpt-4o-mini'', system_message = system_prompt,
      user_message = user_prompt resume_text, json_schema = schema, strict = True,
      temperature = 0\<rparr>"

text \<open>
  \<open>llm_extract_resume\<close>: the package check, then the credential check (\<open>not api_key\<close>
  holds for a missing and for an empty value), then one request, whose first choice is
  parsed as JSON.
\<close>

definition llm_extract_resume :: "env \<Rightarrow> world \<Rightarrow> str \<Rightarrow> (error + json) \<times> world" where
  "llm_extract_resume E w resume_text =
     (case openai E of
        None \<Rightarrow> (Inl (ImportError (u ''openai package not installed. Run: pip install openai'')), w)
      | Some create \<Rightarrow>
          (case environ E (u ''OPENAI_API_KEY'') of
             None \<Rightarrow> (Inl (RuntimeError (u ''OPENAI_API_KEY not set in environment.'')), w)
           | Some key \<Rightarrow>
               if key = [] then
                 (Inl (RuntimeError (u ''OPENAI_API_KEY not set in environment.'')), w)
               else
                 (let req = make_request key resume_text;
                      w' = w\<lparr>net_calls := net_calls w @ [req]\<rparr>
                  in case create req of
                       Inl e \<Rightarrow> (Inl e, w')
                     | Inr choices \<Rightarrow>
                         (case choices of
                            [] \<Rightarrow> (Inl IndexError, w')
                          | content # _ \<Rightarrow>
                              (case content of
                                 None \<Rightarrow> (Inl TypeError, w')
                               | Some raw \<Rightarrow> (json_loads (runtime E) raw, w'))))))"

section \<open>The driver\<close>

text \<open>\<open>str.isspace\<close> of one code point, and \<open>str.strip()\<close>.\<close>

definition isspace :: "nat \<Rightarrow> bool" where
  "isspace c \<longleftrightarrow>
     (9 \<le> c \<and> c \<le> 13) \<or> (28 \<le> c \<and> c \<le> 32) \<or> c = 133 \<or> c = 160 \<or> c = 5760
     \<or> (8192 \<le> c \<and> c \<le> 8202) \<or> c = 8232 \<or> c = 8233 \<or> c = 8239 \<or> c = 8287 \<or> c = 12288"

definition strip :: "str \<Rightarrow> str" where
  "strip s = rev (dropWhile isspace (rev (dropWhile isspace s)))"

text \<open>
  Opening the output for writing creates or empties it; the text is then encoded as
  UTF-8 while it is written (a new line as it is, as on a POSIX system), and a code point
  that cannot be encoded raises with the file holding what had been written before.
\<close>

definition write_json :: "env \<Rightarrow> world \<Rightarrow> str \<Rightarrow> json \<Rightarrow> (error + str) \<times> world" where
  "write_json E w out_json data =
     (if \<not> writable E out_json then (Inl (OSError out_json), w)
      else
        (case utf8_encode (json_dumps data) of
           Inl e \<Rightarrow> (Inl e, w\<lparr>files := (files w)(out_json \<mapsto> partial_output E data)\<rparr>)
         | Inr bs \<Rightarrow> (Inr out_json, w\<lparr>files := (files w)(out_json \<mapsto> bs)\<rparr>)))"

definition parse_any_resume_to_json ::
  "env \<Rightarrow> world \<Rightarrow> str \<Rightarrow> str \<Rightarrow> (error + str) \<times> world" where
  "parse_any_resume_to_json E w upload_path out_json =
     (case extract_text (modules E) (files w) upload_path of
        Inl e \<Rightarrow> (Inl e, w)
      | Inr t \<Rightarrow>
          if t = [] \<or> strip t = [] then
            (Inl (ValueError (u ''No text extracted (consider OCR for scanned PDFs).'')), w)
          else
            (case llm_extract_resume E w t of
               (Inl e, w') \<Rightarrow> (Inl e, w')
             | (Inr data, w') \<Rightarrow> write_json E w' out_json data))"

section \<open>Records that are written and read back\<close>

text \<open>
  The values built from \<open>null\<close>, booleans, strings, arrays and objects, an object
  having distinct keys as every \<open>dict\<close> has.
\<close>

fun plain :: "json \<Rightarrow> bool"
  and plain_list :: "json list \<Rightarrow> bool"
  and plain_dict :: "(str \<times> json) list \<Rightarrow> bool" where
  "plain JNull = True"
| "plain (JBool b) = True"
| "plain (JInt i) = False"
| "plain (JFloat r) = False"
| "plain (JStr s) = True"
| "plain (JArr vs) = plain_list vs"
| "plain (JObj kvs) = (distinct (map fst kvs) \<and> plain_dict kvs)"
| "plain_list [] = True"
| "plain_list (v # vs) = (plain v \<and> plain_list vs)"
| "plain_dict [] = True"
| "plain_dict ((k, v) # kvs) = (plain v \<and> plain_dict kvs)"

text \<open>A bound on the nested calls the scanner makes on the text of a value.\<close>

fun jsize :: "json \<Rightarrow> nat"
  and jsize_list :: "json list \<Rightarrow> nat"
  and jsize_dict :: "(str \<times> json) list \<Rightarrow> nat" where
  "jsize JNull = 1"
| "jsize (JBool b) = 1"
| "jsize (JInt i) = 1"
| "jsize (JFloat r) = 1"
| "jsize (JStr s) = 1"
| "jsize (JArr vs) = 2 + jsize_list vs"
| "jsize (JObj kvs) = 2 + jsize_dict kvs"
| "jsize_list [] = 0"
| "jsize_list (v # vs) = 1 + jsize v + jsize_list vs"
| "jsize_dict [] = 0"
| "jsize_dict ((k, v) # kvs) = 1 + jsize v + jsize_dict kvs"

text \<open>
  What \<open>parse_array\<close> does after an item \<open>x\<close> and \<open>parse_object\<close> after a member
  \<open>key: x\<close>, on the input \<open>r\<close> left over.
\<close>

definition array_tail ::
  "nat \<Rightarrow> runtime \<Rightarrow> nat \<Rightarrow> json \<Rightarrow> str \<Rightarrow> scan_error + json list \<times> str" where
  "array_tail n rt d x r =
     (case skip_ws r of
        [] \<Rightarrow> Inl Syntax
      | c # cs \<Rightarrow>
          if c = 93 then Inr ([x], cs)
          else if c = 44 then
            (case parse_array n rt d (skip_ws cs) of
               Inl e \<Rightarrow> Inl e
             | Inr (vs, r') \<Rightarrow> Inr (x # vs, r'))
          else Inl Syntax)"

definition object_tail ::
  "nat \<Rightarrow> runtime \<Rightarrow> nat \<Rightarrow> (str \<times> json) list \<Rightarrow> str \<Rightarrow> json \<Rightarrow> str
     \<Rightarrow> scan_error + (str \<times> json) list \<times> str" where
  "object_tail n rt d acc key x r =
     (case skip_ws r of
        [] \<Rightarrow> Inl Syntax
      | c # cs \<Rightarrow>
          if c = 125 then Inr (dict_set acc key x, cs)
          else if c = 44 then parse_object n rt d (dict_set acc key x) (skip_ws cs)
          else Inl Syntax)"

text \<open>How deep the arrays and objects of a value are nested.\<close>

fun jdepth :: "json \<Rightarrow> nat"
  and jdepth_list :: "json list \<Rightarrow> nat"
  and jdepth_dict :: "(str \<times> json) list \<Rightarrow> nat" where
  "jdepth JNull = 0"
| "jdepth (JBool b) = 0"
| "jdepth (JInt i) = 0"
| "jdepth (JFloat r) = 0"
| "jdepth (JStr s) = 0"
| "jdepth (JArr vs) = Suc (jdepth_list vs)"
| "jdepth (JObj kvs) = Suc (jdepth_dict kvs)"
| "jdepth_list [] = 0"
| "jdepth_list (v # vs) = max (jdepth v) (jdepth_list vs)"
| "jdepth_dict [] = 0"
| "jdepth_dict ((k, v) # kvs) = max (jdepth v) (jdepth_dict kvs)"

text \<open>The code points that UTF-8 can encode: the Unicode scalar values.\<close>

definition is_scalar :: "nat \<Rightarrow> bool" where
  "is_scalar c \<longleftrightarrow> c < 55296 \<or> (57344 \<le> c \<and> c < 1114112)"

fun scalar_json :: "json \<Rightarrow> bool"
  and scalar_list :: "json list \<Rightarrow> bool"
  and scalar_dict :: "(str \<times> json) list \<Rightarrow> bool" where
  "scalar_json JNull = True"
| "scalar_json (JBool b) = True"
| "scalar_json (JInt i) = True"
| "scalar_json (JFloat r) = list_all is_scalar r"
| "scalar_json (JStr s) = list_all is_scalar s"
| "scalar_json (JArr vs) = scalar_list vs"
| "scalar_json (JObj kvs) = scalar_dict kvs"
| "scalar_list [] = True"
| "scalar_list (v # vs) = (scalar_json v \<and> scalar_list vs)"
| "scalar_dict [] = True"
| "scalar_dict ((k, v) # kvs) = (list_all is_scalar k \<and> scalar_json v \<and> scalar_dict kvs)"

text \<open>The bytes that can start no UTF-8 sequence.\<close>

definition invalid_start :: "nat \<Rightarrow> bool" where
  "invalid_start b \<longleftrightarrow> (128 \<le> b \<and> b < 194) \<or> 245 \<le> b"

section \<open>Sample environments\<close>

definition sample_doc :: docx_document where
  "sample_doc = \<lparr>paragraphs = [u ''Ada'', u ''Engineer''],
                  tables = [[[u ''a'', u ''b''], [u ''c'', u ''d'']]]\<rparr>"

definition sample_libs :: libs where
  "sample_libs = \<lparr>importlib_util = True, fitz = None, pypdf2 = None, docx = Some (\<lambda>p. Inr sample_doc),
                   textract = Some (\<lambda>p. Inr [65, 255, 66]), ucd_lower = (\<lambda>s. s)\<rparr>"

definition sample_fs :: "str \<rightharpoonup> bytes" where
  "sample_fs = [u ''n.txt'' \<mapsto> [128], u ''blank.txt'' \<mapsto> [32, 9, 13, 10],
                u ''x.TXT'' \<mapsto> [65, 255, 66]]"

definition bad_doc :: str where
  \<open>bad_doc = u ''{"name":"'' @ [92] @ u ''ud800","email":null,"phone":null,"linkedin":null,"summary":null,"skills":[],"experience":[],"education":[],"certificates":[],"languages":[],"detected_language":"en"}''\<close>

definition bad_record :: json where
  "bad_record = JObj [(u ''name'', JStr [55296]), (u ''email'', JNull), (u ''phone'', JNull),
     (u ''linkedin'', JNull), (u ''summary'', JNull), (u ''skills'', JArr []),
     (u ''experience'', JArr []), (u ''education'', JArr []), (u ''certificates'', JArr []),
     (u ''languages'', JArr []), (u ''detected_language'', JStr (u ''en''))]"

text \<open>
  Sample environments: the interpreter has its default limits (and, of the float
  literals, only \<open>1e5\<close> is given its text), the service answers every request with the
  content \<open>raw\<close>, and a dump that raises has left the opening of the object and its first
  key in the file.
\<close>

definition sample_runtime :: runtime where
  "sample_runtime =
     \<lparr>recursion_limit = 990, int_max_str_digits = 4300,
      floatstr = (\<lambda>lit. if lit = u ''1e5'' then u ''100000.0'' else lit)\<rparr>"

definition sample_env :: "str \<Rightarrow> env" where
  "sample_env raw =
     \<lparr>modules = sample_libs, runtime = sample_runtime,
      openai = Some (\<lambda>req. Inr [Some raw]),
      environ = [u ''OPENAI_API_KEY'' \<mapsto> u ''sk-test''], writable = (\<lambda>p. True),
      partial_output = (\<lambda>d. [123, 10, 32, 32, 34, 110, 97, 109, 101, 34, 58, 32])\<rparr>"

definition no_key_env :: env where
  "no_key_env = (sample_env (u ''null''))\<lparr>environ := Map.empty\<rparr>"

definition empty_key_env :: env where
  "empty_key_env = (sample_env (u ''null''))\<lparr>environ := [u ''OPENAI_API_KEY'' \<mapsto> []]\<rparr>"

definition no_openai_env :: env where
  "no_openai_env = (sample_env (u ''null''))\<lparr>openai := None, environ := Map.empty\<rparr>"



definition sample_world :: world where
  "sample_world = \<lparr>files = sample_fs, net_calls = []\<rparr>"

text \<open>Text files in the encodings of the candidate list.\<close>

definition codec_fs :: "str \<rightharpoonup> bytes" where
  "codec_fs =
     [u ''utf8.txt'' \<mapsto> [226, 130, 172, 195, 169], u ''latin1.txt'' \<mapsto> [233],
      u ''cp1252.txt'' \<mapsto> [128], u ''utf16.txt'' \<mapsto> [255, 254, 65, 0],
      u ''mojibake.txt'' \<mapsto> [195, 169], u ''cr.txt'' \<mapsto> [97, 13, 98]]"

text \<open>
  A record that validates against the schema, the content with which the service sends
  it, and the text and the bytes of the file that holds it.
\<close>

definition good_record :: json where
  "good_record = JObj [(u ''name'', JStr [90, 111, 235]), (u ''email'', JNull),
     (u ''phone'', JNull), (u ''linkedin'', JNull), (u ''summary'', JNull),
     (u ''skills'', JArr [JStr (u ''C'')]),
     (u ''experience'',
      JArr [JObj [(u ''position'', JStr (u ''Engineer'')), (u ''company'', JNull),
                  (u ''duration'', JNull), (u ''description'', JArr [])]]),
     (u ''education'', JArr []), (u ''certificates'', JArr []), (u ''languages'', JArr []),
     (u ''detected_language'', JStr (u ''en''))]"

definition good_doc :: str where
  \<open>good_doc = u ''{"name":"Zo'' @ [235] @ u ''","email":null,"phone":null,"linkedin":null,"summary":null,"skills":["C"],"experience":[{"position":"Engineer","company":null,"duration":null,"description":[]}],"education":[],"certificates":[],"languages":[],"detected_language":"en"}''\<close>

definition good_text :: str where
  \<open>good_text =
     u ''{'' @ [10]
     @ u ''  "name": "Zo'' @ [235] @ u ''",'' @ [10]
     @ u ''  "email": null,'' @ [10]
     @ u ''  "phone": null,'' @ [10]
     @ u ''  "linkedin": null,'' @ [10]
     @ u ''  "summary": null,'' @ [10]
     @ u ''  "skills": ['' @ [10]
     @ u ''    "C"'' @ [10]
     @ u ''  ],'' @ [10]
     @ u ''  "experience": ['' @ [10]
     @ u ''    {'' @ [10]
     @ u ''      "position": "Engineer",'' @ [10]
     @ u ''      "company": null,'' @ [10]
     @ u ''      "duration": null,'' @ [10]
     @ u ''      "description": []'' @ [10]
     @ u ''    }'' @ [10]
     @ u ''  ],'' @ [10]
     @ u ''  "education": [],'' @ [10]
     @ u ''  "certificates": [],'' @ [10]
     @ u ''  "languages": [],'' @ [10]
     @ u ''  "detected_language": "en"'' @ [10]
     @ u ''}''\<close>

definition good_bytes :: bytes where
  "good_bytes =
     [123, 10, 32, 32, 34, 110, 97, 109, 101, 34, 58, 32, 34, 90, 111, 195, 171, 34, 44, 10,
      32, 32, 34, 101, 109, 97, 105, 108, 34, 58, 32, 110, 117, 108, 108, 44, 10,
      32, 32, 34, 112, 104, 111, 110, 101, 34, 58, 32, 110, 117, 108, 108, 44, 10,
      32, 32, 34, 108, 105, 110, 107, 101, 100, 105, 110, 34, 58, 32, 110, 117, 108, 108, 44, 10,
      32, 32, 34, 115, 117, 109, 109, 97, 114, 121, 34, 58, 32, 110, 117, 108, 108, 44, 10,
      32, 32, 34, 115, 107, 105, 108, 108, 115, 34, 58, 32, 91, 10,
      32, 32, 32, 32, 34, 67, 34, 10,
      32, 32, 93, 44, 10,
      32, 32, 34, 101, 120, 112, 101, 114, 105, 101, 110, 99, 101, 34, 58, 32, 91, 10,
      32, 32, 32, 32, 123, 10,
      32, 32, 32, 32, 32, 32, 34, 112, 111, 115, 105, 116, 105, 111, 110, 34, 58, 32,
      34, 69, 110, 103, 105, 110, 101, 101, 114, 34, 44, 10,
      32, 32, 32, 32, 32, 32, 34, 99, 111, 109, 112, 97, 110, 121, 34, 58, 32,
      110, 117, 108, 108, 44, 10,
      32, 32, 32, 32, 32, 32, 34, 100, 117, 114, 97, 116, 105, 111, 110, 34, 58, 32,
      110, 117, 108, 108, 44, 10,
      32, 32, 32, 32, 32, 32, 34, 100, 101, 115, 99, 114, 105, 112, 116, 105, 111, 110, 34,
      58, 32, 91, 93, 10,
      32, 32, 32, 32, 125, 10,
      32, 32, 93, 44, 10,
      32, 32, 34, 101, 100, 117, 99, 97, 116, 105, 111, 110, 34, 58, 32, 91, 93, 44, 10,
      32, 32, 34, 99, 101, 114, 116, 105, 102, 105, 99, 97, 116, 101, 115, 34, 58, 32,
      91, 93, 44, 10,
      32, 32, 34, 108, 97, 110, 103, 117, 97, 103, 101, 115, 34, 58, 32, 91, 93, 44, 10,
      32, 32, 34, 100, 101, 116, 101, 99, 116, 101, 100, 95, 108, 97, 110, 103, 117, 97,
      103, 101, 34, 58, 32, 34, 101, 110, 34, 10, 125]"

(*PROPERTIES*)

section \<open>The UTF-8 decoder\<close>

lemma utf8_decode_Cons_Inl:
  "utf8_step b bs = Inl k \<Longrightarrow>
   utf8_decode m (b # bs) =
     (case m of Strict \<Rightarrow> Inl UnicodeDecodeError
      | Ignore \<Rightarrow> utf8_decode m (drop k bs)
      | Replace \<Rightarrow> (case utf8_decode m (drop k bs) of Inl e \<Rightarrow> Inl e | Inr s \<Rightarrow> Inr (65533 # s)))"
  by simp

lemma utf8_decode_Cons_Inr:
  "utf8_step b bs = Inr (c, k) \<Longrightarrow>
   utf8_decode m (b # bs) =
     (case utf8_decode m (drop k bs) of Inl e \<Rightarrow> Inl e | Inr s \<Rightarrow> Inr (c # s))"
  by simp

lemma utf8_ignore_total: "\<exists>s. utf8_decode Ignore xs = Inr s"
proof (induction xs rule: length_induct)
  case (1 xs)
  show ?case
  proof (cases xs)
    case Nil
    then show ?thesis by simp
  next
    case (Cons b bs)
    have IH: "\<exists>s. utf8_decode Ignore (drop k bs) = Inr s" for k
      using 1 [rule_format, of "drop k bs"] Cons by simp
    show ?thesis
    proof (cases "utf8_step b bs")
      case (Inl k)
      then show ?thesis using IH [of k] Cons by (simp only: utf8_decode_Cons_Inl errors_mode.case)
    next
      case (Inr ck)
      obtain c k where ck: "ck = (c, k)" by (cases ck)
      obtain s where "utf8_decode Ignore (drop k bs) = Inr s" using IH [of k] by blast
      then show ?thesis using Cons Inr ck by (simp only: utf8_decode_Cons_Inr sum.case) blast
    qed
  qed
qed

lemma utf8_strict_error: "utf8_decode Strict xs = Inl e \<Longrightarrow> e = UnicodeDecodeError"
proof (induction xs arbitrary: e rule: length_induct)
  case (1 xs)
  show ?case
  proof (cases xs)
    case Nil
    then show ?thesis using 1(2) by simp
  next
    case (Cons b bs)
    have IH: "utf8_decode Strict (drop k bs) = Inl e \<Longrightarrow> e = UnicodeDecodeError" for k e
      using 1(1) [rule_format, of "drop k bs" e] Cons by simp
    show ?thesis
    proof (cases "utf8_step b bs")
      case (Inl k)
      then show ?thesis using 1(2) Cons by (simp only: utf8_decode_Cons_Inl errors_mode.case) simp
    next
      case (Inr ck)
      obtain c k where ck: "ck = (c, k)" by (cases ck)
      have eq: "utf8_decode Strict xs =
         (case utf8_decode Strict (drop k bs) of Inl e \<Rightarrow> Inl e | Inr s \<Rightarrow> Inr (c # s))"
        using Cons Inr ck by (simp only: utf8_decode_Cons_Inr)
      show ?thesis
      proof (cases "utf8_decode Strict (drop k bs)")
        case (Inl e')
        then show ?thesis using eq 1(2) IH [of k e'] by simp
      next
        case (Inr s)
        then show ?thesis using eq 1(2) by simp
      qed
    qed
  qed
qed

lemma utf8_strict_ignore: "utf8_decode Strict xs = Inr s \<Longrightarrow> utf8_decode Ignore xs = Inr s"
proof (induction xs arbitrary: s rule: length_induct)
  case (1 xs)
  show ?case
  proof (cases xs)
    case Nil
    then show ?thesis using 1(2) by simp
  next
    case (Cons b bs)
    have IH: "utf8_decode Strict (drop k bs) = Inr s \<Longrightarrow> utf8_decode Ignore (drop k bs) = Inr s" for k s
      using 1(1) [rule_format, of "drop k bs" s] Cons by simp
    show ?thesis
    proof (cases "utf8_step b bs")
      case (Inl k)
      then show ?thesis using 1(2) Cons by (simp only: utf8_decode_Cons_Inl errors_mode.case) simp
    next
      case (Inr ck)
      obtain c k where ck: "ck = (c, k)" by (cases ck)
      have eq: "utf8_decode m xs =
         (case utf8_decode m (drop k bs) of Inl e \<Rightarrow> Inl e | Inr s \<Rightarrow> Inr (c # s))" for m
        using Cons Inr ck by (simp only: utf8_decode_Cons_Inr)
      show ?thesis
      proof (cases "utf8_decode Strict (drop k bs)")
        case (Inl e')
        then show ?thesis using eq [of Strict] 1(2) by simp
      next
        case (Inr s')
        then show ?thesis using eq [of Strict] eq [of Ignore] 1(2) IH [of k s'] by simp
      qed
    qed
  qed
qed

lemma utf8_step_invalid_start: "invalid_start b \<Longrightarrow> utf8_step b bs = Inl 0"
proof -
  assume "invalid_start b"
  then consider "128 \<le> b \<and> b < 194" | "245 \<le> b"
    unfolding invalid_start_def by blast
  then show ?thesis
  proof cases
    case 1
    then show ?thesis unfolding utf8_step_def by simp
  next
    case 2
    then show ?thesis unfolding utf8_step_def by simp
  qed
qed

lemma utf8_ignore_drops: "\<forall>b \<in> set xs. invalid_start b \<Longrightarrow> utf8_decode Ignore xs = Inr []"
proof (induction xs)
  case Nil
  then show ?case by simp
next
  case (Cons b bs)
  then have "utf8_step b bs = Inl 0" by (simp add: utf8_step_invalid_start)
  then show ?case using Cons by (simp only: utf8_decode_Cons_Inl errors_mode.case) simp
qed

section \<open>DOCX extraction\<close>

lemma docx_rows_closed:
  "docx_rows acc rows = acc @ concat (map (\<lambda>row. [10] @ join [9] row) rows)"
  by (induction rows arbitrary: acc) simp_all

lemma docx_tables_closed:
  "docx_tables acc ts = acc @ concat (map (\<lambda>row. [10] @ join [9] row) (concat ts))"
  by (induction ts arbitrary: acc) (simp_all add: docx_rows_closed)

text \<open>
  C7. For a DOCX document that the DOCX library, found by the import helper, has
  parsed, \<open>extract_text\<close> returns the paragraph texts joined by newlines, followed by
  the rows of all tables in table order, each row on a new line with its cells separated
  by tabs; all table text comes after all paragraph text.
\<close>

theorem docx_text_layout:
  assumes "lower (ucd_lower L) (path_suffix file_path) = u ''.docx''"
    and "importlib_util L" and "docx L = Some Document" and "Document file_path = Inr doc"
  shows "extract_text L fs file_path =
           Inr (join [10] (paragraphs doc)
                @ concat (map (\<lambda>row. [10] @ join [9] row) (concat (tables doc))))"
  using assms
  by (simp add: extract_text_def extract_docx_def import_or_raise_def docx_tables_closed u_def)

lemma sample_docx_suffix:
  "lower (ucd_lower sample_libs) (path_suffix (u ''out/CV.DocX'')) = u ''.docx''"
  by (simp add: path_suffix_def path_name_def u_def lower_def ascii_lower_def sample_libs_def)

theorem docx_text_layout_witness:
  "lower (ucd_lower sample_libs) (path_suffix (u ''out/CV.DocX'')) = u ''.docx''
   \<and> importlib_util sample_libs
   \<and> docx sample_libs = Some (\<lambda>p. Inr sample_doc)
   \<and> extract_text sample_libs Map.empty (u ''out/CV.DocX'') =
       Inr (u ''Ada'' @ [10] @ u ''Engineer'' @ [10] @ u ''a'' @ [9] @ u ''b''
            @ [10] @ u ''c'' @ [9] @ u ''d'')"
  using docx_text_layout [of sample_libs "u ''out/CV.DocX''" "\<lambda>p. Inr sample_doc"
      sample_doc Map.empty]
  by (simp add: sample_docx_suffix) (simp add: sample_libs_def sample_doc_def u_def)

section \<open>Dispatch and decoding\<close>

lemma ext_consts:
  "u ''.pdf'' \<noteq> u ''.docx''" "u ''.pdf'' \<noteq> u ''.doc''" "u ''.pdf'' \<noteq> u ''.txt''"
  "u ''.docx'' \<noteq> u ''.doc''" "u ''.docx'' \<noteq> u ''.txt''" "u ''.doc'' \<noteq> u ''.txt''"
  by (simp_all add: u_def)

lemma extract_text_dispatch:
  "extract_text L fs p =
     (let ext = lower (ucd_lower L) (path_suffix p) in
      if ext = u ''.pdf'' then extract_pdf L p
      else if ext = u ''.docx'' then extract_docx L p
      else if ext = u ''.doc'' then extract_doc L p
      else if ext = u ''.txt'' then extract_txt fs p
      else Inl (ValueError (unsupported_msg ext)))"
  by (simp only: extract_text_def)

lemma extract_text_doc:
  "lower (ucd_lower L) (path_suffix p) = u ''.doc'' \<Longrightarrow> extract_text L fs p = extract_doc L p"
  by (simp only: extract_text_dispatch Let_def) (simp add: u_def)

lemma extract_text_txt:
  "lower (ucd_lower L) (path_suffix p) = u ''.txt'' \<Longrightarrow> extract_text L fs p = extract_txt fs p"
  by (simp only: extract_text_dispatch Let_def) (simp add: u_def)

lemma extract_text_pdf:
  "lower (ucd_lower L) (path_suffix p) = u ''.pdf'' \<Longrightarrow> extract_text L fs p = extract_pdf L p"
  by (simp only: extract_text_dispatch Let_def) simp

lemma extract_text_docx:
  "lower (ucd_lower L) (path_suffix p) = u ''.docx'' \<Longrightarrow> extract_text L fs p = extract_docx L p"
  by (simp only: extract_text_dispatch Let_def) (simp add: u_def)

lemma extract_text_unsupported:
  assumes "lower (ucd_lower L) (path_suffix p) \<notin> {u ''.pdf'', u ''.docx'', u ''.doc'', u ''.txt''}"
  shows "extract_text L fs p =
           Inl (ValueError (unsupported_msg (lower (ucd_lower L) (path_suffix p))))"
  using assms by (simp only: extract_text_dispatch Let_def) simp

text \<open>
  C5. Dispatch depends only on the lowercased file-name suffix \<open>ext\<close>: each of the four
  supported suffixes selects its handler, and every other suffix makes \<open>extract_text\<close>
  fail with a \<open>ValueError\<close> whose message names \<open>ext\<close> and the supported set. On an
  ASCII suffix, lowercasing maps \<open>A..Z\<close> to \<open>a..z\<close>, so the comparison ignores case.
\<close>

theorem unsupported_extension:
  assumes "ext = lower (ucd_lower L) (path_suffix file_path)"
  shows "(ext = u ''.pdf'' \<longrightarrow> extract_text L fs file_path = extract_pdf L file_path)
       \<and> (ext = u ''.docx'' \<longrightarrow> extract_text L fs file_path = extract_docx L file_path)
       \<and> (ext = u ''.doc'' \<longrightarrow> extract_text L fs file_path = extract_doc L file_path)
       \<and> (ext = u ''.txt'' \<longrightarrow> extract_text L fs file_path = extract_txt fs file_path)
       \<and> (ext \<notin> {u ''.pdf'', u ''.docx'', u ''.doc'', u ''.txt''} \<longrightarrow>
            extract_text L fs file_path =
              Inl (ValueError (u ''Unsupported file type: '' @ ext
                               @ u '' (supported: .pdf, .docx, .doc, .txt)'')))
       \<and> ((\<forall>c \<in> set (path_suffix file_path). c < 128) \<longrightarrow>
            ext = map ascii_lower (path_suffix file_path))"
proof (intro conjI impI)
  assume "ext = u ''.pdf''"
  then show "extract_text L fs file_path = extract_pdf L file_path"
    using assms extract_text_pdf by metis
next
  assume "ext = u ''.docx''"
  then show "extract_text L fs file_path = extract_docx L file_path"
    using assms extract_text_docx by metis
next
  assume "ext = u ''.doc''"
  then show "extract_text L fs file_path = extract_doc L file_path"
    using assms extract_text_doc by metis
next
  assume "ext = u ''.txt''"
  then show "extract_text L fs file_path = extract_txt fs file_path"
    using assms extract_text_txt by metis
next
  assume "ext \<notin> {u ''.pdf'', u ''.docx'', u ''.doc'', u ''.txt''}"
  then show "extract_text L fs file_path =
      Inl (ValueError (u ''Unsupported file type: '' @ ext
                       @ u '' (supported: .pdf, .docx, .doc, .txt)''))"
    using extract_text_unsupported [of L file_path fs] unfolding assms unsupported_msg_def
    by blast
next
  assume "\<forall>c \<in> set (path_suffix file_path). c < 128"
  then show "ext = map ascii_lower (path_suffix file_path)"
    unfolding assms lower_def by simp
qed

text \<open>
  C2 (amended). Decoding with \<open>errors="ignore"\<close> never raises, agrees with strict
  decoding on valid UTF-8, and drops invalid bytes without putting anything in their
  place. The legacy \<open>.doc\<close> branch, once the import helper has found the capability
  and the capability has returned its bytes, returns them decoded this way, and so does
  the fallback after the last candidate encoding of the \<open>.txt\<close> branch.
\<close>

theorem doc_decoding_ignores:
  "(\<exists>s. utf8_decode Ignore (map unat bs) = Inr s)
   \<and> (utf8_decode Strict (map unat bs1) = Inr s1 \<longrightarrow> utf8_decode Ignore (map unat bs1) = Inr s1)
   \<and> ((\<forall>b \<in> set bs2. invalid_start (unat b)) \<longrightarrow> utf8_decode Ignore (map unat bs2) = Inr [])
   \<and> (lower (ucd_lower L) (path_suffix p) = u ''.doc'' \<and> importlib_util L
        \<and> textract L = Some process \<and> process p = Inr bs3 \<longrightarrow>
        extract_text L fs p = utf8_decode Ignore (map unat bs3))
   \<and> (fs' p' = Some bs4 \<longrightarrow> try_encodings fs' p' [] = utf8_decode Ignore (map unat bs4))"
proof -
  have a: "\<exists>s. utf8_decode Ignore (map unat bs) = Inr s" by (rule utf8_ignore_total)
  have b: "utf8_decode Strict (map unat bs1) = Inr s1 \<longrightarrow> utf8_decode Ignore (map unat bs1) = Inr s1"
    by (simp add: utf8_strict_ignore)
  have c: "(\<forall>b \<in> set bs2. invalid_start (unat b)) \<longrightarrow> utf8_decode Ignore (map unat bs2) = Inr []"
    by (simp add: utf8_ignore_drops)
  have d: "lower (ucd_lower L) (path_suffix p) = u ''.doc'' \<and> importlib_util L
        \<and> textract L = Some process \<and> process p = Inr bs3 \<longrightarrow>
        extract_text L fs p = utf8_decode Ignore (map unat bs3)"
    by (simp add: extract_text_doc extract_doc_def import_or_raise_def)
  have e: "fs' p' = Some bs4 \<longrightarrow> try_encodings fs' p' [] = utf8_decode Ignore (map unat bs4)"
    by (simp add: read_binary_def)
  show ?thesis using a b c d e by blast
qed

lemma read_text_utf8_error:
  assumes "fs p = Some bs" and "read_text fs p UTF8 = Inl e"
  shows "e = UnicodeDecodeError \<and> (\<exists>e'. decode UTF8 bs = Inl e')"
proof (cases "utf8_decode Strict (map unat bs)")
  case (Inl e')
  then have "e' = UnicodeDecodeError" by (rule utf8_strict_error)
  then show ?thesis using assms Inl by (simp add: read_text_def)
next
  case (Inr s)
  then show ?thesis using assms by (simp add: read_text_def)
qed

lemma read_text_latin1:
  "fs p = Some bs \<Longrightarrow> read_text fs p Latin1 = Inr (translate_newlines (map unat bs))"
  by (simp add: read_text_def latin1_decode_def)

lemma try_encodings_utf8_latin1:
  assumes "fs p = Some bs"
  shows "try_encodings fs p (UTF8 # Latin1 # rest) =
           Inr (translate_newlines (case decode UTF8 bs of Inr s \<Rightarrow> s | Inl e \<Rightarrow> map unat bs))"
proof (cases "read_text fs p UTF8")
  case (Inl e)
  then have "e = UnicodeDecodeError" and "\<exists>e'. decode UTF8 bs = Inl e'"
    using read_text_utf8_error [of fs p bs e] assms Inl by simp_all
  then show ?thesis using Inl read_text_latin1 [of fs p bs] assms by auto
next
  case (Inr s)
  then have "s = translate_newlines (case decode UTF8 bs of Inr s \<Rightarrow> s | Inl e \<Rightarrow> map unat bs)"
    using assms by (auto simp: read_text_def split: sum.splits)
  then show ?thesis using Inr by simp
qed

text \<open>
  C10. For a readable \<open>.txt\<close> file, Latin-1 decodes every byte sequence, so the loop
  over the candidates returns at the first or the second one, whatever candidates
  follow: the result is the UTF-8 text, or the Latin-1 text when the bytes are not valid
  UTF-8, and never a decoding error.
\<close>

theorem txt_later_candidates_unreachable:
  assumes "fs file_path = Some bs"
  shows "(\<exists>s. decode Latin1 bs = Inr s)
       \<and> try_encodings fs file_path (UTF8 # Latin1 # rest) =
           Inr (translate_newlines
                  (case decode UTF8 bs of Inr s \<Rightarrow> s | Inl e \<Rightarrow> map unat bs))
       \<and> (lower (ucd_lower L) (path_suffix file_path) = u ''.txt'' \<longrightarrow>
            extract_text L fs file_path =
              Inr (translate_newlines
                     (case decode UTF8 bs of Inr s \<Rightarrow> s | Inl e \<Rightarrow> map unat bs)))"
proof (intro conjI impI)
  show "\<exists>s. decode Latin1 bs = Inr s" by (simp add: latin1_decode_def)
next
  show "try_encodings fs file_path (UTF8 # Latin1 # rest) =
           Inr (translate_newlines
                  (case decode UTF8 bs of Inr s \<Rightarrow> s | Inl e \<Rightarrow> map unat bs))"
    using try_encodings_utf8_latin1 [of fs file_path bs rest] assms by simp
next
  assume "lower (ucd_lower L) (path_suffix file_path) = u ''.txt''"
  then have "extract_text L fs file_path = try_encodings fs file_path [UTF8, Latin1, CP1252, ISO8859_1, UTF16]"
    by (simp add: extract_text_txt extract_txt_def candidates_def)
  then show "extract_text L fs file_path =
              Inr (translate_newlines
                     (case decode UTF8 bs of Inr s \<Rightarrow> s | Inl e \<Rightarrow> map unat bs))"
    using try_encodings_utf8_latin1 [of fs file_path bs "[CP1252, ISO8859_1, UTF16]"] assms by simp
qed

lemma sample_txt_suffix:
  "lower (ucd_lower sample_libs) (path_suffix (u ''x.TXT'')) = u ''.txt''"
  by (simp add: path_suffix_def path_name_def u_def lower_def ascii_lower_def sample_libs_def)

lemma sample_fs_x: "sample_fs (u ''x.TXT'') = Some [65, 255, 66]"
  by (simp add: sample_fs_def u_def)

lemma decode_sample: "decode UTF8 [65, 255, 66] = Inl UnicodeDecodeError"
  by (simp add: utf8_step_def)

theorem txt_later_candidates_unreachable_witness:
  "sample_fs (u ''x.TXT'') = Some [65, 255, 66]
   \<and> lower (ucd_lower sample_libs) (path_suffix (u ''x.TXT'')) = u ''.txt''
   \<and> try_encodings sample_fs (u ''x.TXT'') [UTF8, Latin1, CP1252, ISO8859_1, UTF16] = Inr [65, 255, 66]
   \<and> extract_text sample_libs sample_fs (u ''x.TXT'') = Inr [65, 255, 66]"
  using txt_later_candidates_unreachable [of sample_fs "u ''x.TXT''" "[65, 255, 66]"
      "[CP1252, ISO8859_1, UTF16]" sample_libs]
  by (simp add: sample_txt_suffix sample_fs_x utf8_step_def)

lemma sample_doc_suffix:
  "lower (ucd_lower sample_libs) (path_suffix (u ''old.doc'')) = u ''.doc''"
  by (simp add: path_suffix_def path_name_def u_def lower_def ascii_lower_def sample_libs_def)

lemma sample_jpg_suffix:
  "lower (ucd_lower sample_libs) (path_suffix (u ''in/photo.JPG'')) = u ''.jpg''"
  by (simp add: path_suffix_def path_name_def u_def lower_def ascii_lower_def sample_libs_def)

lemma sample_doc_text: "extract_text sample_libs Map.empty (u ''old.doc'') = Inr [65, 66]"
  by (simp add: extract_text_doc sample_doc_suffix extract_doc_def import_or_raise_def)
     (simp add: sample_libs_def utf8_step_def)

text \<open>
  C2 as stated fails: the invalid byte \<open>0xFF\<close> between \<open>A\<close> and \<open>B\<close> is dropped by
  the \<open>.doc\<close> branch and by the \<open>.txt\<close> fallback, where replacing decoding yields
  U+FFFD.
\<close>

theorem doc_decoding_replacement_counterexample:
  "extract_text sample_libs Map.empty (u ''old.doc'') = Inr [65, 66]
   \<and> utf8_decode Replace (map unat [65, 255, 66 :: 8 word]) = Inr [65, 65533, 66]
   \<and> extract_text sample_libs Map.empty (u ''old.doc'')
       \<noteq> utf8_decode Replace (map unat [65, 255, 66 :: 8 word])
   \<and> try_encodings sample_fs (u ''x.TXT'') [] = Inr [65, 66]"
  by (simp add: sample_doc_text utf8_step_def read_binary_def sample_fs_x)

text \<open>The amended C2 at concrete byte sequences.\<close>

theorem doc_decoding_ignores_witness:
  "utf8_decode Ignore (map unat [65, 255, 66 :: 8 word]) = Inr [65, 66]
   \<and> utf8_decode Strict (map unat [226, 130, 172 :: 8 word]) = Inr [8364]
   \<and> utf8_decode Ignore (map unat [226, 130, 172 :: 8 word]) = Inr [8364]
   \<and> invalid_start (unat (255 :: 8 word)) \<and> invalid_start (unat (128 :: 8 word))
   \<and> utf8_decode Ignore (map unat [255, 128 :: 8 word]) = Inr []
   \<and> lower (ucd_lower sample_libs) (path_suffix (u ''old.doc'')) = u ''.doc''
   \<and> importlib_util sample_libs
   \<and> extract_text sample_libs Map.empty (u ''old.doc'') = utf8_decode Ignore (map unat [65, 255, 66 :: 8 word])
   \<and> sample_fs (u ''x.TXT'') = Some [65, 255, 66]
   \<and> try_encodings sample_fs (u ''x.TXT'') [] = utf8_decode Ignore (map unat [65, 255, 66 :: 8 word])"
  using doc_decoding_ignores [of "[65, 255, 66 :: 8 word]" "[226, 130, 172 :: 8 word]" "[8364]"
      "[255, 128 :: 8 word]" sample_libs "u ''old.doc''" "\<lambda>p. Inr [65, 255, 66]"
      "[65, 255, 66 :: 8 word]" Map.empty sample_fs "u ''x.TXT''" "[65, 255, 66 :: 8 word]"]
  by (simp add: sample_doc_suffix sample_fs_x invalid_start_def utf8_step_def is_cont_def)
     (simp add: sample_libs_def)

theorem unsupported_extension_witness:
  "lower (ucd_lower sample_libs) (path_suffix (u ''in/photo.JPG'')) = u ''.jpg''
   \<and> u ''.jpg'' \<notin> {u ''.pdf'', u ''.docx'', u ''.doc'', u ''.txt''}
   \<and> list_all (\<lambda>c. c < 128) (path_suffix (u ''in/photo.JPG''))
   \<and> extract_text sample_libs Map.empty (u ''in/photo.JPG'') =
       Inl (ValueError (u ''Unsupported file type: .jpg (supported: .pdf, .docx, .doc, .txt)''))
   \<and> extract_text sample_libs sample_fs (u ''x.TXT'') = extract_txt sample_fs (u ''x.TXT'')
   \<and> extract_text sample_libs Map.empty (u ''old.doc'') = extract_doc sample_libs (u ''old.doc'')"
  using unsupported_extension [of "u ''.jpg''" sample_libs "u ''in/photo.JPG''" Map.empty]
    unsupported_extension [of "u ''.txt''" sample_libs "u ''x.TXT''" sample_fs]
    unsupported_extension [of "u ''.doc''" sample_libs "u ''old.doc''" Map.empty]
  by (simp add: sample_jpg_suffix sample_txt_suffix sample_doc_suffix)
     (simp add: u_def path_suffix_def path_name_def)

section \<open>Evaluating the JSON scanner\<close>

lemma scan_once_pos:
  "0 < n \<Longrightarrow> scan_once n rt d s =
     (case s of
        [] \<Rightarrow> Inl Syntax
      | c # cs \<Rightarrow>
          if c = 34 then scanned_string (scanstring cs)
          else if c = 123 then
            (if d = 0 then Inl TooDeep
             else
               (case skip_ws cs of
                  [] \<Rightarrow> Inl Syntax
                | x # xs \<Rightarrow>
                    if x = 125 then Inr (JObj [], xs)
                    else with_rest JObj (parse_object (n - 1) rt (d - 1) [] (x # xs))))
          else if c = 91 then
            (if d = 0 then Inl TooDeep
             else
               (case skip_ws cs of
                  [] \<Rightarrow> Inl Syntax
                | x # xs \<Rightarrow>
                    if x = 93 then Inr (JArr [], xs)
                    else with_rest JArr (parse_array (n - 1) rt (d - 1) (x # xs))))
          else if starts_with (u ''null'') s then Inr (JNull, drop 4 s)
          else if starts_with (u ''true'') s then Inr (JBool True, drop 4 s)
          else if starts_with (u ''false'') s then Inr (JBool False, drop 5 s)
          else if starts_with (u ''NaN'') s then Inr (JFloat (u ''NaN''), drop 3 s)
          else if starts_with (u ''Infinity'') s then Inr (JFloat (u ''Infinity''), drop 8 s)
          else if starts_with (u ''-Infinity'') s then Inr (JFloat (u ''-Infinity''), drop 9 s)
          else match_number rt s)"
  using scan_once.simps(2) [of "n - 1" rt d s] by simp

lemma parse_array_pos:
  "0 < n \<Longrightarrow> parse_array n rt d s =
     (case scan_once (n - 1) rt d s of
        Inl e \<Rightarrow> Inl e
      | Inr (v, r) \<Rightarrow>
          (case skip_ws r of
             [] \<Rightarrow> Inl Syntax
           | x # xs \<Rightarrow>
               if x = 93 then Inr ([v], xs)
               else if x = 44 then
                 (case parse_array (n - 1) rt d (skip_ws xs) of
                    Inl e \<Rightarrow> Inl e
                  | Inr (vs, r') \<Rightarrow> Inr (v # vs, r'))
               else Inl Syntax))"
  using parse_array.simps(2) [of "n - 1" rt d s] by simp

lemma parse_object_pos:
  "0 < n \<Longrightarrow> parse_object n rt d acc s =
     (case s of
        [] \<Rightarrow> Inl Syntax
      | q # qs \<Rightarrow>
          if q \<noteq> 34 then Inl Syntax
          else
            (case scanstring qs of
               None \<Rightarrow> Inl Syntax
             | Some (key, r) \<Rightarrow>
                 (case skip_ws r of
                    [] \<Rightarrow> Inl Syntax
                  | colon # r1 \<Rightarrow>
                      if colon \<noteq> 58 then Inl Syntax
                      else
                        (case scan_once (n - 1) rt d (skip_ws r1) of
                           Inl e \<Rightarrow> Inl e
                         | Inr (v, r2) \<Rightarrow>
                             (case skip_ws r2 of
                                [] \<Rightarrow> Inl Syntax
                              | x # xs \<Rightarrow>
                                  if x = 125 then Inr (dict_set acc key v, xs)
                                  else if x = 44
                                  then parse_object (n - 1) rt d (dict_set acc key v) (skip_ws xs)
                                  else Inl Syntax)))))"
  using parse_object.simps(2) [of "n - 1" rt d acc s] by simp

lemma sample_runtime_simps:
  "recursion_limit sample_runtime = 990" "int_max_str_digits sample_runtime = 4300"
  by (simp_all add: sample_runtime_def)

lemmas json_eval = json_loads_def scan_once_pos parse_array_pos parse_object_pos skip_ws_def
  is_ws_def starts_with_def match_number_def number_tail_def is_digit_def with_rest_def
  scanned_string_def scan_exception_def sample_runtime_simps
  cons_chr_def hex4_def hex_val_def unescape_def nat_of_digits_def u_def

lemma loads_oops: "json_loads sample_runtime (u ''oops'') = Inl (JSONDecodeError (u ''oops''))"
  by (simp add: json_eval)

lemma loads_nan: "json_loads sample_runtime (u ''NaN'') = Inr (JFloat (u ''NaN''))"
  by (simp add: json_eval)

lemma loads_small:
  "json_loads sample_runtime (u ''{ \"a\": [null, \"b\"] }'')
     = Inr (JObj [(u ''a'', JArr [JNull, JStr (u ''b'')])])"
  by (simp add: json_eval)

lemma loads_bad: "json_loads sample_runtime bad_doc = Inr bad_record"
  unfolding bad_doc_def bad_record_def by (simp add: json_eval)


lemma loads_deep:
  "json_loads (sample_runtime\<lparr>recursion_limit := 1\<rparr>) (u ''[[]]'') = Inl RecursionError"
  by (simp add: json_eval)

lemma loads_float:
  "json_loads sample_runtime (u ''[1e5, -12]'') = Inr (JArr [JFloat (u ''100000.0''), JInt (- 12)])"
  by (simp add: json_eval sample_runtime_def)

lemma loads_big:
  "json_loads (sample_runtime\<lparr>int_max_str_digits := 3\<rparr>) (u ''1234'')
     = Inl (ValueError (digits_message 3 4))"
  by (simp add: json_eval) (simp add: eval_nat_numeral)

lemma valid_bad: "schema_valid bad_record"
  unfolding bad_record_def schema_valid_def
  by (simp add: has_keys_def required_keys_def property_ok_def is_string_def is_string_or_null_def
      is_string_array_def is_array_of_def u_def)

section \<open>The client and the driver\<close>

lemma json_loads_syntax: "json_loads rt s = Inl (JSONDecodeError doc) \<Longrightarrow> doc = s"
  by (auto simp: json_loads_def scan_exception_def split: if_splits sum.splits scan_error.splits)

lemma json_loads_errors:
  "json_loads rt s = Inl e \<Longrightarrow>
   e = JSONDecodeError s \<or> e = RecursionError
   \<or> (\<exists>n. e = ValueError (digits_message (int_max_str_digits rt) n))"
  by (auto simp: json_loads_def scan_exception_def split: if_splits sum.splits scan_error.splits)

lemma llm_request:
  assumes "openai E = Some create"
    and "environ E (u ''OPENAI_API_KEY'') = Some key" and "key \<noteq> []"
    and "create (make_request key resume_text) = Inr (content # others)"
  shows "llm_extract_resume E w resume_text =
           ((case content of None \<Rightarrow> Inl TypeError | Some raw \<Rightarrow> json_loads (runtime E) raw),
            w\<lparr>net_calls := net_calls w @ [make_request key resume_text]\<rparr>)"
  using assms by (simp add: llm_extract_resume_def Let_def split: option.splits)

lemma strip_blank: "\<forall>c \<in> set t. isspace c \<Longrightarrow> strip t = []"
proof -
  assume "\<forall>c \<in> set t. isspace c"
  then have "dropWhile isspace t = []" by simp
  then show ?thesis unfolding strip_def by (simp del: dropWhile_eq_Nil_conv)
qed

lemma strip_nonblank: "strip t = [] \<Longrightarrow> \<forall>c \<in> set t. isspace c"
proof -
  assume a: "strip t = []"
  let ?d = "dropWhile isspace t"
  have all: "\<forall>c \<in> set ?d. isspace c"
    using a by (simp add: strip_def)
  have "?d = []"
  proof (rule ccontr)
    assume ne: "?d \<noteq> []"
    then have "\<not> isspace (hd ?d)" by (rule hd_dropWhile)
    moreover have "hd ?d \<in> set ?d" using ne by simp
    ultimately show False using all by blast
  qed
  then show ?thesis by simp
qed

text \<open>
  C4. When \<open>extract_text\<close> returns a string that is empty or all white space, the
  driver fails with the \<open>ValueError\<close> whose message points to OCR for scanned
  documents, and the world is left as it was: no request is sent, no file is written.
\<close>

theorem empty_text_is_error:
  assumes "extract_text (modules E) (files w) upload_path = Inr t"
    and "\<forall>c \<in> set t. isspace c"
  shows "parse_any_resume_to_json E w upload_path out_json =
           (Inl (ValueError (u ''No text extracted (consider OCR for scanned PDFs).'')), w)"
  using assms by (simp add: parse_any_resume_to_json_def strip_blank)

text \<open>
  C6 (amended). When the credential is missing or empty, \<open>llm_extract_resume\<close> sends
  no request; it fails with the \<open>RuntimeError\<close> "OPENAI_API_KEY not set in environment."
  when the OpenAI package is installed, and with the \<open>ImportError\<close> of the package
  check, which comes first, when it is not.
\<close>

theorem missing_credential:
  assumes "environ E (u ''OPENAI_API_KEY'') = None \<or> environ E (u ''OPENAI_API_KEY'') = Some []"
  shows "(openai E \<noteq> None \<longrightarrow>
            llm_extract_resume E w resume_text =
              (Inl (RuntimeError (u ''OPENAI_API_KEY not set in environment.'')), w))
       \<and> (openai E = None \<longrightarrow>
            llm_extract_resume E w resume_text =
              (Inl (ImportError (u ''openai package not installed. Run: pip install openai'')), w))
       \<and> net_calls (snd (llm_extract_resume E w resume_text)) = net_calls w"
  using assms by (auto simp: llm_extract_resume_def split: option.splits)

text \<open>
  C9 (amended). With the package installed and the credential set, \<open>llm_extract_resume\<close>
  sends exactly one request, whatever the answer. When \<open>json.loads\<close> rejects the content of
  the first choice with a syntax error, the call fails with that \<open>JSONDecodeError\<close>, which
  carries the content. The other failures of \<open>json.loads\<close> are a \<open>RecursionError\<close> and the
  \<open>ValueError\<close> of the digit limit, which do not carry it, and a missing content is a
  \<open>TypeError\<close>.
\<close>

theorem malformed_response:
  assumes "openai E = Some create"
    and "environ E (u ''OPENAI_API_KEY'') = Some key" and "key \<noteq> []"
    and "create (make_request key resume_text) = Inr (content # others)"
  shows "(content = Some raw \<and> json_loads (runtime E) raw = Inl (JSONDecodeError doc) \<longrightarrow>
            doc = raw
            \<and> llm_extract_resume E w resume_text =
                (Inl (JSONDecodeError raw),
                 w\<lparr>net_calls := net_calls w @ [make_request key resume_text]\<rparr>))
       \<and> (content = Some raw \<longrightarrow> fst (llm_extract_resume E w resume_text) = json_loads (runtime E) raw)
       \<and> (content = None \<longrightarrow> fst (llm_extract_resume E w resume_text) = Inl TypeError)
       \<and> snd (llm_extract_resume E w resume_text)
           = w\<lparr>net_calls := net_calls w @ [make_request key resume_text]\<rparr>
       \<and> (json_loads (runtime E) raw = Inl e \<longrightarrow>
            e = JSONDecodeError raw \<or> e = RecursionError
            \<or> (\<exists>n. e = ValueError (digits_message (int_max_str_digits (runtime E)) n)))"
proof (intro conjI impI)
  assume a: "content = Some raw \<and> json_loads (runtime E) raw = Inl (JSONDecodeError doc)"
  then show "doc = raw" using json_loads_syntax by blast
  then show "llm_extract_resume E w resume_text =
                (Inl (JSONDecodeError raw),
                 w\<lparr>net_calls := net_calls w @ [make_request key resume_text]\<rparr>)"
    using a llm_request [OF assms, of w] by simp
next
  assume "content = Some raw"
  then show "fst (llm_extract_resume E w resume_text) = json_loads (runtime E) raw"
    using llm_request [OF assms, of w] by simp
next
  assume "content = None"
  then show "fst (llm_extract_resume E w resume_text) = Inl TypeError"
    using llm_request [OF assms, of w] by simp
next
  show "snd (llm_extract_resume E w resume_text)
           = w\<lparr>net_calls := net_calls w @ [make_request key resume_text]\<rparr>"
    using llm_request [OF assms, of w] by simp
next
  assume "json_loads (runtime E) raw = Inl e"
  then show "e = JSONDecodeError raw \<or> e = RecursionError
            \<or> (\<exists>n. e = ValueError (digits_message (int_max_str_digits (runtime E)) n))"
    by (rule json_loads_errors)
qed

lemma llm_files: "llm_extract_resume E w t = (r, w') \<Longrightarrow> files w' = files w"
proof -
  assume a: "llm_extract_resume E w t = (r, w')"
  have "w' = w \<or> (\<exists>q. w' = w\<lparr>net_calls := q\<rparr>)"
  proof (cases "openai E")
    case None
    then show ?thesis using a by (simp add: llm_extract_resume_def)
  next
    case (Some create)
    show ?thesis
    proof (cases "environ E (u ''OPENAI_API_KEY'')")
      case None
      then show ?thesis using a Some by (simp add: llm_extract_resume_def)
    next
      case (Some key)
      show ?thesis
      proof (cases "key = []")
        case True
        then show ?thesis using a \<open>openai E = Some create\<close> Some
          by (simp add: llm_extract_resume_def)
      next
        case False
        then have "snd (llm_extract_resume E w t) = w\<lparr>net_calls := net_calls w @ [make_request key t]\<rparr>"
          using \<open>openai E = Some create\<close> Some
          by (simp add: llm_extract_resume_def Let_def split: sum.splits list.splits option.splits)
        then show ?thesis using a by auto
      qed
    qed
  qed
  then show ?thesis by auto
qed

lemma sample_blank_suffix:
  "lower (ucd_lower sample_libs) (path_suffix (u ''blank.txt'')) = u ''.txt''"
  by (simp add: path_suffix_def path_name_def u_def lower_def ascii_lower_def sample_libs_def)

lemma sample_fs_blank: "sample_fs (u ''blank.txt'') = Some [32, 9, 13, 10]"
  by (simp add: sample_fs_def u_def)

lemma sample_extract_blank:
  "extract_text sample_libs sample_fs (u ''blank.txt'') = Inr [32, 9, 10]"
  using try_encodings_utf8_latin1 [of sample_fs "u ''blank.txt''" "[32, 9, 13, 10]"
      "[CP1252, ISO8859_1, UTF16]"]
  by (simp add: extract_text_txt sample_blank_suffix extract_txt_def candidates_def
      sample_fs_blank utf8_step_def)

lemma sample_extract_x:
  "extract_text sample_libs sample_fs (u ''x.TXT'') = Inr [65, 255, 66]"
  using try_encodings_utf8_latin1 [of sample_fs "u ''x.TXT''" "[65, 255, 66]"
      "[CP1252, ISO8859_1, UTF16]"]
  by (simp add: extract_text_txt sample_txt_suffix extract_txt_def candidates_def
      sample_fs_x utf8_step_def)

lemma sample_env_simps:
  "modules (sample_env raw) = sample_libs"
  "runtime (sample_env raw) = sample_runtime"
  "openai (sample_env raw) = Some (\<lambda>req. Inr [Some raw])"
  "environ (sample_env raw) (u ''OPENAI_API_KEY'') = Some (u ''sk-test'')"
  "writable (sample_env raw) p"
  "files sample_world = sample_fs" "net_calls sample_world = []"
  by (simp_all add: sample_env_def sample_world_def)

lemma sample_llm:
  "llm_extract_resume (sample_env raw) sample_world t =
     (json_loads sample_runtime raw,
      sample_world\<lparr>net_calls := [make_request (u ''sk-test'') t]\<rparr>)"
  by (simp add: llm_extract_resume_def sample_env_simps Let_def) (simp add: u_def)

theorem empty_text_is_error_witness:
  "extract_text (modules (sample_env (u ''null''))) (files sample_world) (u ''blank.txt'')
     = Inr [32, 9, 10]
   \<and> list_all isspace [32, 9, 10]
   \<and> parse_any_resume_to_json (sample_env (u ''null'')) sample_world (u ''blank.txt'')
        (u ''out.json'') =
       (Inl (ValueError (u ''No text extracted (consider OCR for scanned PDFs).'')), sample_world)"
  using empty_text_is_error [of "sample_env (u ''null'')" sample_world "u ''blank.txt''"
      "[32, 9, 10]" "u ''out.json''"]
  by (simp add: sample_env_simps sample_extract_blank isspace_def)

theorem missing_credential_witness:
  "environ no_key_env (u ''OPENAI_API_KEY'') = None
   \<and> llm_extract_resume no_key_env sample_world (u ''Ada'') =
       (Inl (RuntimeError (u ''OPENAI_API_KEY not set in environment.'')), sample_world)
   \<and> environ empty_key_env (u ''OPENAI_API_KEY'') = Some []
   \<and> llm_extract_resume empty_key_env sample_world (u ''Ada'') =
       (Inl (RuntimeError (u ''OPENAI_API_KEY not set in environment.'')), sample_world)
   \<and> openai no_openai_env = None
   \<and> llm_extract_resume no_openai_env sample_world (u ''Ada'') =
       (Inl (ImportError (u ''openai package not installed. Run: pip install openai'')),
        sample_world)"
  using missing_credential [of no_key_env sample_world "u ''Ada''"]
    missing_credential [of empty_key_env sample_world "u ''Ada''"]
    missing_credential [of no_openai_env sample_world "u ''Ada''"]
  by (simp add: no_key_env_def empty_key_env_def no_openai_env_def sample_env_def)

text \<open>
  C6 as stated fails: without the OpenAI package and without a credential the call
  fails with the \<open>ImportError\<close> of the package check, not with the credential error.
\<close>

theorem missing_credential_counterexample:
  "environ no_openai_env (u ''OPENAI_API_KEY'') = None
   \<and> llm_extract_resume no_openai_env sample_world (u ''Ada'') =
       (Inl (ImportError (u ''openai package not installed. Run: pip install openai'')),
        sample_world)
   \<and> llm_extract_resume no_openai_env sample_world (u ''Ada'') \<noteq>
       (Inl (RuntimeError (u ''OPENAI_API_KEY not set in environment.'')), sample_world)"
  by (simp add: no_openai_env_def sample_env_def llm_extract_resume_def)

theorem malformed_response_witness:
  "json_loads (runtime (sample_env (u ''oops''))) (u ''oops'') = Inl (JSONDecodeError (u ''oops''))
   \<and> llm_extract_resume (sample_env (u ''oops'')) sample_world (u ''Ada'') =
       (Inl (JSONDecodeError (u ''oops'')),
        sample_world\<lparr>net_calls := [make_request (u ''sk-test'') (u ''Ada'')]\<rparr>)
   \<and> length (net_calls (snd (llm_extract_resume (sample_env (u ''oops'')) sample_world (u ''Ada'')))) = 1"
  using malformed_response [of "sample_env (u ''oops'')" "\<lambda>req. Inr [Some (u ''oops'')]"
      "u ''sk-test''" "u ''Ada''" "Some (u ''oops'')" "[]" "u ''oops''" "u ''oops''" sample_world]
  by (simp add: sample_env_simps loads_oops) (simp add: u_def)

text \<open>
  C9 as stated fails: the content \<open>NaN\<close> is not valid JSON, and the call returns the
  float it denotes instead of failing.
\<close>

theorem malformed_response_counterexample:
  "json_loads (runtime (sample_env (u ''NaN''))) (u ''NaN'') = Inr (JFloat (u ''NaN''))
   \<and> llm_extract_resume (sample_env (u ''NaN'')) sample_world (u ''Ada'') =
       (Inr (JFloat (u ''NaN'')),
        sample_world\<lparr>net_calls := [make_request (u ''sk-test'') (u ''Ada'')]\<rparr>)"
  by (simp add: sample_llm sample_env_simps loads_nan)

lemma utf8_encode_nat_error: "utf8_encode_nat s = Inl e \<Longrightarrow> e = UnicodeEncodeError"
  by (induction s arbitrary: e) (auto split: option.splits sum.splits)

lemma utf8_encode_nat_fails:
  "c \<in> set s \<Longrightarrow> utf8_encode_char c = None \<Longrightarrow> utf8_encode_nat s = Inl UnicodeEncodeError"
proof (induction s)
  case Nil
  then show ?case by simp
next
  case (Cons a s)
  show ?case
  proof (cases "utf8_encode_char a")
    case None
    then show ?thesis by simp
  next
    case (Some bs)
    then have "c \<in> set s" using Cons.prems by auto
    then have "utf8_encode_nat s = Inl UnicodeEncodeError" using Cons by simp
    then show ?thesis using Some by simp
  qed
qed

lemma bad_record_not_encodable: "utf8_encode (json_dumps bad_record) = Inl UnicodeEncodeError"
proof -
  have "55296 \<in> set (json_dumps bad_record)"
    unfolding bad_record_def json_dumps_def
    by (simp add: encode_basestring_def escape_char_def)
  moreover have "utf8_encode_char 55296 = None" by (simp add: utf8_encode_char_def)
  ultimately have "utf8_encode_nat (json_dumps bad_record) = Inl UnicodeEncodeError"
    by (rule utf8_encode_nat_fails)
  then show ?thesis by (simp add: utf8_encode_def to_bytes_def)
qed



lemma not_blank: "\<not> (\<forall>c \<in> set t. isspace c) \<Longrightarrow> t \<noteq> [] \<and> strip t \<noteq> []"
  using strip_nonblank [of t] by auto


lemma driver_write:
  assumes "extract_text (modules E) (files w) p = Inr t" and "\<not> (\<forall>c \<in> set t. isspace c)"
    and "llm_extract_resume E w t = (Inr data, w')"
  shows "parse_any_resume_to_json E w p out = write_json E w' out data"
  using assms not_blank [of t] by (simp add: parse_any_resume_to_json_def)

lemma driver_success:
  assumes "extract_text (modules E) (files w) p = Inr t" and "\<not> (\<forall>c \<in> set t. isspace c)"
    and "llm_extract_resume E w t = (Inr data, w')"
    and "writable E out" and "utf8_encode (json_dumps data) = Inr bs"
  shows "parse_any_resume_to_json E w p out = (Inr out, w'\<lparr>files := (files w)(out \<mapsto> bs)\<rparr>)"
  using assms driver_write [of E w p t data w' out] llm_files [of E w t "Inr data" w']
  by (simp add: write_json_def)


lemma x_not_blank: "\<not> (\<forall>c \<in> set [65, 255, 66]. isspace c)"
  by (simp add: isspace_def)






section \<open>UTF-8 round trip\<close>

lemma utf8_step_1: "c < 128 \<Longrightarrow> utf8_step c rest = Inr (c, 0)"
  by (simp add: utf8_step_def)

lemma utf8_step_2_digits:
  assumes "2 \<le> h" "h < 32" "r < 64"
  shows "utf8_step (192 + h) ((128 + r) # rest) = Inr (h * 64 + r, 1)"
  using assms by (simp add: utf8_step_def is_cont_def)

lemma utf8_step_3_digits:
  assumes "h < 16" "m < 64" "r < 64" "h = 0 \<longrightarrow> 32 \<le> m" "h = 13 \<longrightarrow> m < 32"
  shows "utf8_step (224 + h) ((128 + m) # (128 + r) # rest) = Inr (h * 4096 + m * 64 + r, 2)"
  using assms by (auto simp: utf8_step_def is_cont_def)

lemma utf8_step_4_digits:
  assumes "g < 5" "h < 64" "m < 64" "r < 64" "g = 0 \<longrightarrow> 16 \<le> h" "g = 4 \<longrightarrow> h < 16"
  shows "utf8_step (240 + g) ((128 + h) # (128 + m) # (128 + r) # rest)
           = Inr (g * 262144 + h * 4096 + m * 64 + r, 3)"
  using assms by (auto simp: utf8_step_def is_cont_def)

text \<open>The base-64 digits of a code point.\<close>

lemma digits64:
  fixes c :: nat
  defines "r \<equiv> c mod 64" and "m \<equiv> (c div 64) mod 64" and "h \<equiv> (c div 4096) mod 64"
    and "g \<equiv> c div 262144"
  shows "r < 64" "m < 64" "h < 64"
    and "c div 64 = (c div 4096) * 64 + m"
    and "c div 4096 = g * 64 + h"
    and "c = (c div 64) * 64 + r"
proof -
  show "r < 64" "m < 64" "h < 64" unfolding r_def m_def h_def by simp_all
  have a: "c div 64 div 64 = c div 4096" by (simp add: div_mult2_eq [symmetric])
  have b: "c div 4096 div 64 = c div 262144" by (simp add: div_mult2_eq [symmetric])
  show "c div 64 = (c div 4096) * 64 + m"
    unfolding m_def using div_mult_mod_eq [of "c div 64" 64] a by simp
  show "c div 4096 = g * 64 + h"
    unfolding g_def h_def using div_mult_mod_eq [of "c div 4096" 64] b by simp
  show "c = (c div 64) * 64 + r" unfolding r_def by simp
qed

lemma utf8_step_2:
  assumes "128 \<le> c" "c < 2048"
  shows "utf8_step (192 + c div 64) ((128 + c mod 64) # rest) = Inr (c, 1)"
proof -
  define q where "q = c div 64"
  define r where "r = c mod 64"
  have c: "c = q * 64 + r" and r: "r < 64" unfolding q_def r_def by simp_all
  have "2 \<le> q" "q < 32" using assms c r by linarith+
  then have "utf8_step (192 + q) ((128 + r) # rest) = Inr (c, 1)"
    using utf8_step_2_digits [of q r rest] r c by simp
  then show ?thesis unfolding q_def r_def .
qed

lemma utf8_step_3:
  assumes "2048 \<le> c" "c < 65536" "\<not> (55296 \<le> c \<and> c < 57344)"
  shows "utf8_step (224 + c div 4096) ((128 + (c div 64) mod 64) # (128 + c mod 64) # rest)
           = Inr (c, 2)"
proof -
  define q where "q = c div 64"
  define r where "r = c mod 64"
  define m where "m = (c div 64) mod 64"
  define h where "h = c div 4096"
  have f: "r < 64" "m < 64" "q = h * 64 + m" "c = q * 64 + r"
    using digits64 [of c] unfolding q_def r_def m_def h_def by simp_all
  have "h < 16" "h = 0 \<longrightarrow> 32 \<le> m" "h = 13 \<longrightarrow> m < 32" "h * 4096 + m * 64 + r = c"
    using assms f by linarith+
  then have "utf8_step (224 + h) ((128 + m) # (128 + r) # rest) = Inr (c, 2)"
    using utf8_step_3_digits [of h m r rest] f by simp
  then show ?thesis unfolding r_def m_def h_def .
qed

lemma utf8_step_4:
  assumes "65536 \<le> c" "c < 1114112"
  shows "utf8_step (240 + c div 262144)
           ((128 + (c div 4096) mod 64) # (128 + (c div 64) mod 64) # (128 + c mod 64) # rest)
           = Inr (c, 3)"
proof -
  define q where "q = c div 64"
  define r where "r = c mod 64"
  define m where "m = (c div 64) mod 64"
  define p where "p = c div 4096"
  define h where "h = (c div 4096) mod 64"
  define g where "g = c div 262144"
  have f: "r < 64" "m < 64" "h < 64" "q = p * 64 + m" "p = g * 64 + h" "c = q * 64 + r"
    using digits64 [of c] unfolding q_def r_def m_def h_def p_def g_def by simp_all
  have "g < 5" "g = 0 \<longrightarrow> 16 \<le> h" "g = 4 \<longrightarrow> h < 16"
    "g * 262144 + h * 4096 + m * 64 + r = c"
    using assms f by linarith+
  then have "utf8_step (240 + g) ((128 + h) # (128 + m) # (128 + r) # rest) = Inr (c, 3)"
    using utf8_step_4_digits [of g h m r rest] f by simp
  then show ?thesis unfolding r_def m_def h_def g_def .
qed


lemma utf8_encode_char_bytes:
  "utf8_encode_char c = Some bs \<Longrightarrow> \<forall>b \<in> set bs. b < 256"
proof -
  assume a: "utf8_encode_char c = Some bs"
  have m: "c mod 64 < 64" "(c div 64) mod 64 < 64" "(c div 4096) mod 64 < 64" by simp_all
  have d2: "c < 2048 \<Longrightarrow> c div 64 < 32" by (simp add: div_less_iff_less_mult)
  have d3: "c < 65536 \<Longrightarrow> c div 4096 < 16" by (simp add: div_less_iff_less_mult)
  have d4: "c < 1114112 \<Longrightarrow> c div 262144 < 5" by (simp add: div_less_iff_less_mult)
  show ?thesis using a m d2 d3 d4
    by (auto simp: utf8_encode_char_def split: if_splits)
qed

lemma utf8_decode_encoded_char:
  assumes "utf8_encode_char c = Some bs"
  shows "\<exists>b bs'. bs = b # bs' \<and> utf8_step b (bs' @ rest) = Inr (c, length bs')"
proof -
  consider "c < 128" | "128 \<le> c" "c < 2048"
    | "2048 \<le> c" "c < 65536" "\<not> (55296 \<le> c \<and> c < 57344)"
    | "65536 \<le> c" "c < 1114112"
    using assms by (auto simp: utf8_encode_char_def split: if_splits)
  then show ?thesis
  proof cases
    case 1
    then show ?thesis using assms utf8_step_1 [of c rest] by (auto simp: utf8_encode_char_def)
  next
    case 2
    then show ?thesis using assms utf8_step_2 [of c rest] by (auto simp: utf8_encode_char_def)
  next
    case 3
    then show ?thesis using assms utf8_step_3 [of c rest] by (auto simp: utf8_encode_char_def)
  next
    case 4
    then show ?thesis using assms utf8_step_4 [of c rest] by (auto simp: utf8_encode_char_def)
  qed
qed

lemma utf8_roundtrip_nat: "utf8_encode_nat s = Inr ns \<Longrightarrow> utf8_decode Strict ns = Inr s"
proof (induction s arbitrary: ns)
  case Nil
  then show ?case by simp
next
  case (Cons c s)
  from Cons.prems obtain bs r where bs: "utf8_encode_char c = Some bs"
    and r: "utf8_encode_nat s = Inr r" and ns: "ns = bs @ r"
    by (auto split: option.splits sum.splits)
  obtain b bs' where b: "bs = b # bs'" "utf8_step b (bs' @ r) = Inr (c, length bs')"
    using utf8_decode_encoded_char [OF bs, of r] by blast
  have "utf8_decode Strict r = Inr s" using Cons.IH r by simp
  then show ?case using b ns by (simp only: append_Cons utf8_decode_Cons_Inr) simp
qed

lemma utf8_encode_nat_bytes: "utf8_encode_nat s = Inr ns \<Longrightarrow> \<forall>b \<in> set ns. b < 256"
proof (induction s arbitrary: ns)
  case Nil
  then show ?case by simp
next
  case (Cons c s)
  from Cons.prems obtain bs r where bs: "utf8_encode_char c = Some bs"
    and r: "utf8_encode_nat s = Inr r" and ns: "ns = bs @ r"
    by (auto split: option.splits sum.splits)
  show ?case using utf8_encode_char_bytes [OF bs] Cons.IH [OF r] ns by auto
qed

lemma unat_of_nat_bytes:
  "\<forall>b \<in> set ns. b < 256 \<Longrightarrow> map unat (map of_nat ns :: 8 word list) = ns"
  by (induction ns) (simp_all add: unat_of_nat take_bit_nat_eq_self)

lemma utf8_roundtrip: "utf8_encode s = Inr bs \<Longrightarrow> decode UTF8 bs = Inr s"
proof -
  assume a: "utf8_encode s = Inr bs"
  then obtain ns where ns: "utf8_encode_nat s = Inr ns" "bs = map of_nat ns"
    by (auto simp: utf8_encode_def to_bytes_def split: sum.splits)
  have "map unat bs = ns" using ns utf8_encode_nat_bytes [of s ns] unat_of_nat_bytes by simp
  then show ?thesis using utf8_roundtrip_nat [OF ns(1)] by simp
qed

section \<open>Round trips of text files\<close>

lemma translate_newlines_id: "13 \<notin> set s \<Longrightarrow> translate_newlines s = s"
  by (induction s rule: translate_newlines.induct) auto

lemma latin1_encode_nat_id:
  "latin1_encode_nat s = Inr ns \<Longrightarrow> ns = s \<and> (\<forall>b \<in> set ns. b < 256)"
  by (induction s arbitrary: ns) (auto split: if_splits sum.splits)

lemma latin1_roundtrip:
  assumes "to_bytes (latin1_encode_nat s) = Inr bs"
  shows "map unat bs = s"
proof -
  obtain ns where ns: "latin1_encode_nat s = Inr ns" "bs = map of_nat ns"
    using assms by (auto simp: to_bytes_def split: sum.splits)
  then show ?thesis using latin1_encode_nat_id [of s ns] unat_of_nat_bytes [of ns] by simp
qed

lemma try_encodings_first_success:
  assumes "\<forall>enc' \<in> set before. read_text fs p enc' = Inl UnicodeDecodeError"
    and "read_text fs p enc = Inr t"
  shows "try_encodings fs p (before @ enc # after) = Inr t"
  using assms by (induction before) simp_all

lemma txt_utf8_roundtrip:
  assumes "lower (ucd_lower L) (path_suffix p) = u ''.txt''" and "13 \<notin> set s"
    and "encode UTF8 s = Inr bs" and "fs p = Some bs"
  shows "extract_text L fs p = Inr s"
proof -
  have "decode UTF8 bs = Inr s" using assms(3) utf8_roundtrip [of s bs] by simp
  then have "read_text fs p UTF8 = Inr s"
    using assms(2,4) by (simp add: read_text_def translate_newlines_id)
  then show ?thesis
    using assms(1) by (simp add: extract_text_txt extract_txt_def candidates_def)
qed

lemma txt_latin1_roundtrip:
  assumes "lower (ucd_lower L) (path_suffix p) = u ''.txt''" and "13 \<notin> set s"
    and "encode Latin1 s = Inr bs \<or> encode ISO8859_1 s = Inr bs" and "fs p = Some bs"
    and "decode UTF8 bs = Inl e"
  shows "extract_text L fs p = Inr s"
proof -
  have "map unat bs = s" using assms(3) latin1_roundtrip [of s bs] by auto
  then have "try_encodings fs p (UTF8 # Latin1 # [CP1252, ISO8859_1, UTF16]) = Inr s"
    using try_encodings_utf8_latin1 [of fs p bs "[CP1252, ISO8859_1, UTF16]"] assms(2,4,5)
    by (simp add: translate_newlines_id)
  then show ?thesis
    using assms(1) by (simp add: extract_text_txt extract_txt_def candidates_def)
qed

text \<open>
  C3 (amended). For a string \<open>s\<close> without carriage returns, a \<open>.txt\<close> file holding the
  UTF-8 encoding of \<open>s\<close> is read back as \<open>s\<close>, and a file holding its Latin-1
  (ISO-8859-1) encoding is read back as \<open>s\<close> when those bytes are not valid UTF-8. The
  candidates are tried in their fixed order and the first one that decodes is returned.
\<close>

theorem txt_roundtrip:
  assumes "lower (ucd_lower L) (path_suffix p) = u ''.txt''" and "13 \<notin> set s"
  shows "(encode UTF8 s = Inr bs \<and> fs p = Some bs \<longrightarrow> extract_text L fs p = Inr s)
       \<and> ((encode Latin1 s = Inr bs1 \<or> encode ISO8859_1 s = Inr bs1) \<and> fs1 p = Some bs1
            \<and> decode UTF8 bs1 = Inl e \<longrightarrow> extract_text L fs1 p = Inr s)
       \<and> (candidates = before @ enc # after
            \<and> list_all (\<lambda>enc'. read_text fs2 p enc' = Inl UnicodeDecodeError) before
            \<and> read_text fs2 p enc = Inr t \<longrightarrow> extract_text L fs2 p = Inr t)"
proof (intro conjI impI)
  assume "encode UTF8 s = Inr bs \<and> fs p = Some bs"
  then show "extract_text L fs p = Inr s"
    using txt_utf8_roundtrip [of L p s bs fs] assms by blast
next
  assume "(encode Latin1 s = Inr bs1 \<or> encode ISO8859_1 s = Inr bs1) \<and> fs1 p = Some bs1
            \<and> decode UTF8 bs1 = Inl e"
  then show "extract_text L fs1 p = Inr s"
    using txt_latin1_roundtrip [of L p s bs1 fs1 e] assms by blast
next
  assume a: "candidates = before @ enc # after
            \<and> list_all (\<lambda>enc'. read_text fs2 p enc' = Inl UnicodeDecodeError) before
            \<and> read_text fs2 p enc = Inr t"
  then have "try_encodings fs2 p (before @ enc # after) = Inr t"
    using try_encodings_first_success [of before fs2 p enc t after]
    by (simp add: list_all_iff)
  then show "extract_text L fs2 p = Inr t"
    using a assms(1) by (simp add: extract_text_txt extract_txt_def)
qed

lemma txt_suffixes:
  "lower (ucd_lower sample_libs) (path_suffix (u ''utf8.txt'')) = u ''.txt''"
  "lower (ucd_lower sample_libs) (path_suffix (u ''latin1.txt'')) = u ''.txt''"
  "lower (ucd_lower sample_libs) (path_suffix (u ''cp1252.txt'')) = u ''.txt''"
  "lower (ucd_lower sample_libs) (path_suffix (u ''utf16.txt'')) = u ''.txt''"
  "lower (ucd_lower sample_libs) (path_suffix (u ''mojibake.txt'')) = u ''.txt''"
  "lower (ucd_lower sample_libs) (path_suffix (u ''cr.txt'')) = u ''.txt''"
  by (simp_all add: path_suffix_def path_name_def u_def lower_def ascii_lower_def sample_libs_def)

lemma codec_fs_files:
  "codec_fs (u ''utf8.txt'') = Some [226, 130, 172, 195, 169]"
  "codec_fs (u ''latin1.txt'') = Some [233]"
  "codec_fs (u ''cp1252.txt'') = Some [128]"
  "codec_fs (u ''utf16.txt'') = Some [255, 254, 65, 0]"
  "codec_fs (u ''mojibake.txt'') = Some [195, 169]"
  "codec_fs (u ''cr.txt'') = Some [97, 13, 98]"
  by (simp_all add: codec_fs_def u_def)

lemma codec_fs_extract:
  "lower (ucd_lower sample_libs) (path_suffix p) = u ''.txt'' \<Longrightarrow> codec_fs p = Some bs \<Longrightarrow>
   extract_text sample_libs codec_fs p =
     Inr (translate_newlines (case decode UTF8 bs of Inr s \<Rightarrow> s | Inl e \<Rightarrow> map unat bs))"
  using try_encodings_utf8_latin1 [of codec_fs p bs "[CP1252, ISO8859_1, UTF16]"]
  by (simp add: extract_text_txt extract_txt_def candidates_def)

lemma cp1252_byte_euro: "cp1252_byte 8364 = Some 128"
  by code_simp

lemma sample_encodings:
  "encode UTF8 [8364, 233] = Inr [226, 130, 172, 195, 169]"
  "encode Latin1 [233] = Inr [233]"
  "encode CP1252 [8364] = Inr [128]"
  "encode UTF16 [65] = Inr [255, 254, 65, 0]"
  "encode Latin1 [195, 169] = Inr [195, 169]"
  "encode UTF8 [97, 13, 98] = Inr [97, 13, 98]"
  by (simp_all add: utf8_encode_def to_bytes_def utf8_encode_char_def cp1252_byte_euro
      utf16_units_of_def)

text \<open>
  C3 as stated fails: the CP1252 encoding of the euro sign and the UTF-16 encoding of
  \<open>A\<close> are returned as Latin-1 text, the Latin-1 encoding of two characters that form a
  valid UTF-8 sequence is returned as one character, and a carriage return in a UTF-8
  file comes back as a line feed.
\<close>

theorem txt_roundtrip_counterexample:
  "encode CP1252 [8364] = Inr [128] \<and> codec_fs (u ''cp1252.txt'') = Some [128]
   \<and> extract_text sample_libs codec_fs (u ''cp1252.txt'') = Inr [128]
   \<and> encode UTF16 [65] = Inr [255, 254, 65, 0]
   \<and> codec_fs (u ''utf16.txt'') = Some [255, 254, 65, 0]
   \<and> extract_text sample_libs codec_fs (u ''utf16.txt'') = Inr [255, 254, 65, 0]
   \<and> encode Latin1 [195, 169] = Inr [195, 169]
   \<and> codec_fs (u ''mojibake.txt'') = Some [195, 169]
   \<and> extract_text sample_libs codec_fs (u ''mojibake.txt'') = Inr [233]
   \<and> encode UTF8 [97, 13, 98] = Inr [97, 13, 98]
   \<and> codec_fs (u ''cr.txt'') = Some [97, 13, 98]
   \<and> extract_text sample_libs codec_fs (u ''cr.txt'') = Inr [97, 10, 98]"
proof -
  have a: "extract_text sample_libs codec_fs (u ''cp1252.txt'') = Inr [128]"
    using codec_fs_extract [of "u ''cp1252.txt''" "[128]"]
    by (simp add: txt_suffixes codec_fs_files utf8_step_def)
  have b: "extract_text sample_libs codec_fs (u ''utf16.txt'') = Inr [255, 254, 65, 0]"
    using codec_fs_extract [of "u ''utf16.txt''" "[255, 254, 65, 0]"]
    by (simp add: txt_suffixes codec_fs_files utf8_step_def)
  have c: "extract_text sample_libs codec_fs (u ''mojibake.txt'') = Inr [233]"
    using codec_fs_extract [of "u ''mojibake.txt''" "[195, 169]"]
    by (simp add: txt_suffixes codec_fs_files utf8_step_def is_cont_def)
  have d: "extract_text sample_libs codec_fs (u ''cr.txt'') = Inr [97, 10, 98]"
    using codec_fs_extract [of "u ''cr.txt''" "[97, 13, 98]"]
    by (simp add: txt_suffixes codec_fs_files utf8_step_def)
  show ?thesis
    using a b c d sample_encodings(3-6) codec_fs_files(3-6) by (intro conjI)
qed

theorem txt_roundtrip_witness:
  "lower (ucd_lower sample_libs) (path_suffix (u ''utf8.txt'')) = u ''.txt''
   \<and> 13 \<notin> set [8364, 233 :: nat]
   \<and> encode UTF8 [8364, 233] = Inr [226, 130, 172, 195, 169]
   \<and> codec_fs (u ''utf8.txt'') = Some [226, 130, 172, 195, 169]
   \<and> extract_text sample_libs codec_fs (u ''utf8.txt'') = Inr [8364, 233]
   \<and> encode Latin1 [233] = Inr [233]
   \<and> codec_fs (u ''latin1.txt'') = Some [233]
   \<and> decode UTF8 [233] = Inl UnicodeDecodeError
   \<and> extract_text sample_libs codec_fs (u ''latin1.txt'') = Inr [233]
   \<and> candidates = [UTF8] @ Latin1 # [CP1252, ISO8859_1, UTF16]
   \<and> read_text codec_fs (u ''latin1.txt'') UTF8 = Inl UnicodeDecodeError
   \<and> read_text codec_fs (u ''latin1.txt'') Latin1 = Inr [233]"
proof -
  have d: "decode UTF8 [233] = Inl UnicodeDecodeError" by (simp add: utf8_step_def)
  have r1: "read_text codec_fs (u ''latin1.txt'') UTF8 = Inl UnicodeDecodeError"
    by (simp add: read_text_def codec_fs_files utf8_step_def)
  have r2: "read_text codec_fs (u ''latin1.txt'') Latin1 = Inr [233]"
    by (simp add: read_text_def codec_fs_files latin1_decode_def)
  have c: "candidates = [UTF8] @ Latin1 # [CP1252, ISO8859_1, UTF16]"
    by (simp add: candidates_def)
  have n: "13 \<notin> set [8364, 233 :: nat]" "13 \<notin> set [233 :: nat]" by simp_all
  have 1: "extract_text sample_libs codec_fs (u ''utf8.txt'') = Inr [8364, 233]"
    using txt_roundtrip [OF txt_suffixes(1) n(1), of "[226, 130, 172, 195, 169]" codec_fs]
      sample_encodings(1) codec_fs_files(1) by blast
  have 2: "extract_text sample_libs codec_fs (u ''latin1.txt'') = Inr [233]"
    using txt_roundtrip [OF txt_suffixes(2) n(2), of _ _ "[233]" codec_fs UnicodeDecodeError]
      sample_encodings(2) codec_fs_files(2) d by blast
  have 3: "extract_text sample_libs codec_fs (u ''latin1.txt'') = Inr [233]"
    using txt_roundtrip [OF txt_suffixes(2) n(2), of _ _ _ _ _ "[UTF8]" Latin1
        "[CP1252, ISO8859_1, UTF16]" codec_fs "[233]"] c r1 r2 by simp
  show ?thesis
    using 1 2 3 d r1 r2 c n(1) txt_suffixes(1) sample_encodings(1,2) codec_fs_files(1,2)
    by (intro conjI)
qed

section \<open>Round trip of JSON text\<close>

lemma hex_val_hex_digit: "d < 16 \<Longrightarrow> hex_val (hex_digit d) = Some d"
  by (auto simp: hex_val_def hex_digit_def)

lemma hex4_escape:
  assumes "c < 32"
  shows "hex4 (48 # 48 # hex_digit (c div 16) # hex_digit (c mod 16) # r) = Some (c, r)"
proof -
  have a: "c div 16 < 16" "c mod 16 < 16" using assms by simp_all
  have b: "hex_val 48 = Some 0" by (simp add: hex_val_def)
  have c: "c div 16 * 16 + c mod 16 = c" by simp
  show ?thesis using a b c by (simp add: hex4_def hex_val_hex_digit)
qed

lemma scanstring_quote: "scanstring (34 # r) = Some ([], r)"
  by simp

lemma scanstring_literal:
  "32 \<le> c \<Longrightarrow> c \<noteq> 34 \<Longrightarrow> c \<noteq> 92 \<Longrightarrow> scanstring (c # r) = cons_chr c (scanstring r)"
  by simp

lemma scanstring_simple_escape:
  "unescape e = Some x \<Longrightarrow> e \<noteq> 117 \<Longrightarrow> scanstring (92 # e # r) = cons_chr x (scanstring r)"
  by simp

lemma scanstring_u_escape:
  "hex4 es = Some (c, r) \<Longrightarrow> c < 55296 \<Longrightarrow> scanstring (92 # 117 # es) = cons_chr c (scanstring r)"
  by simp

lemma scanstring_escape_char: "scanstring (escape_char c @ r) = cons_chr c (scanstring r)"
proof -
  consider "c = 34" | "c = 92" | "c = 10" | "c = 13" | "c = 9" | "c = 8" | "c = 12"
    | "c < 32" "c \<noteq> 10" "c \<noteq> 13" "c \<noteq> 9" "c \<noteq> 8" "c \<noteq> 12"
    | "32 \<le> c" "c \<noteq> 34" "c \<noteq> 92"
    by linarith
  then show ?thesis
  proof cases
    case 8
    then have e: "escape_char c = [92, 117, 48, 48, hex_digit (c div 16), hex_digit (c mod 16)]"
      by (simp add: escape_char_def)
    show ?thesis unfolding e using scanstring_u_escape [OF hex4_escape [OF 8(1)], of r] 8(1)
      by simp
  next
    case 9
    then have e: "escape_char c = [c]" by (simp add: escape_char_def)
    show ?thesis unfolding e using scanstring_literal [of c r] 9 by simp
  qed (simp_all add: escape_char_def scanstring_simple_escape unescape_def)
qed

lemma scanstring_body:
  "scanstring (concat (map escape_char s) @ 34 # r) = Some (s, r)"
proof (induction s)
  case Nil
  then show ?case by (simp add: scanstring_quote)
next
  case (Cons c s)
  have "scanstring (concat (map escape_char (c # s)) @ 34 # r)
        = scanstring (escape_char c @ (concat (map escape_char s) @ 34 # r))" by simp
  also have "\<dots> = cons_chr c (scanstring (concat (map escape_char s) @ 34 # r))"
    by (rule scanstring_escape_char)
  finally show ?case using Cons by (simp add: cons_chr_def)
qed

lemma scanstring_encode_basestring:
  "encode_basestring s @ r = 34 # concat (map escape_char s) @ 34 # r"
  by (simp add: encode_basestring_def)

lemma parse_array_Suc:
  "parse_array (Suc n) rt d s =
     (case scan_once n rt d s of Inl e \<Rightarrow> Inl e | Inr (v, r) \<Rightarrow> array_tail n rt d v r)"
  by (simp add: array_tail_def split: sum.split)

lemma parse_object_Suc:
  "parse_object (Suc n) rt d acc (34 # qs) =
     (case scanstring qs of
        None \<Rightarrow> Inl Syntax
      | Some (key, r) \<Rightarrow>
          (case skip_ws r of
             [] \<Rightarrow> Inl Syntax
           | colon # r1 \<Rightarrow>
               if colon \<noteq> 58 then Inl Syntax
               else (case scan_once n rt d (skip_ws r1) of
                       Inl e \<Rightarrow> Inl e
                     | Inr (v, r2) \<Rightarrow> object_tail n rt d acc key v r2)))"
  by (simp add: object_tail_def split: option.split list.split sum.split)

lemma skip_ws_not_ws: "\<not> is_ws c \<Longrightarrow> skip_ws (c # r) = c # r"
  by (simp add: skip_ws_def)

lemma skip_ws_append: "list_all is_ws ws \<Longrightarrow> skip_ws (ws @ r) = skip_ws r"
  by (induction ws) (simp_all add: skip_ws_def)

lemma newline_indent_ws: "list_all is_ws (newline_indent level)"
  by (simp add: newline_indent_def is_ws_def list_all_iff)

lemma dict_set_fresh: "k \<notin> fst ` set acc \<Longrightarrow> dict_set acc k v = acc @ [(k, v)]"
  by (induction acc) auto

text \<open>The first character of the text of a plain value is not white space.\<close>

lemma iterencode_head:
  "plain v \<Longrightarrow> \<exists>c r. iterencode level v = c # r \<and> \<not> is_ws c \<and> c \<noteq> 93 \<and> c \<noteq> 125 \<and> c \<noteq> 65279"
proof (cases v)
  case (JArr vs)
  then show ?thesis by (cases vs) (simp_all add: u_def is_ws_def)
next
  case (JObj kvs)
  then show ?thesis
  proof (cases kvs)
    case Nil
    then show ?thesis using JObj by (simp add: u_def is_ws_def)
  next
    case (Cons kv kvs')
    then show ?thesis using JObj by (cases kv) (simp add: u_def is_ws_def)
  qed
qed (auto simp: u_def is_ws_def encode_basestring_def)

lemma not_ws: "\<not> is_ws 93" "\<not> is_ws 125" "\<not> is_ws 34" "\<not> is_ws 44" "\<not> is_ws 58"
  by (simp_all add: is_ws_def)

lemma skip_ws_space: "skip_ws (32 # r) = skip_ws r"
  by (simp add: skip_ws_def is_ws_def)

lemma scan_null: "scan_once (Suc n) rt d (u ''null'' @ rest) = Inr (JNull, rest)"
  by (simp add: u_def starts_with_def)

lemma scan_true: "scan_once (Suc n) rt d (u ''true'' @ rest) = Inr (JBool True, rest)"
  by (simp add: u_def starts_with_def)

lemma scan_false: "scan_once (Suc n) rt d (u ''false'' @ rest) = Inr (JBool False, rest)"
  by (simp add: u_def starts_with_def)

lemma scan_string: "scan_once (Suc n) rt d (encode_basestring s @ rest) = Inr (JStr s, rest)"
  by (simp add: scanstring_encode_basestring scanstring_body scanned_string_def)

lemma scan_empty_array: "scan_once (Suc n) rt (Suc d) (u ''[]'' @ rest) = Inr (JArr [], rest)"
  by (simp add: u_def skip_ws_not_ws not_ws)

lemma scan_empty_object: "scan_once (Suc n) rt (Suc d) (u ''{}'' @ rest) = Inr (JObj [], rest)"
  by (simp add: u_def skip_ws_not_ws not_ws)

lemma skip_ws_indent_value:
  assumes "plain v"
  shows "skip_ws (newline_indent l @ iterencode l' v @ R) = iterencode l' v @ R"
proof -
  obtain c r where c: "iterencode l' v = c # r" "\<not> is_ws c"
    using iterencode_head [OF assms, of l'] by blast
  then show ?thesis by (simp add: skip_ws_append newline_indent_ws skip_ws_not_ws)
qed

lemma scan_array:
  assumes "plain v"
    and "scan_once n rt d (iterencode l' v @ R) = Inr (v, R)"
    and "array_tail n rt d v R = Inr (v # vs, rest)"
  shows "scan_once (Suc (Suc n)) rt (Suc d) (91 # newline_indent l @ iterencode l' v @ R)
           = Inr (JArr (v # vs), rest)"
proof -
  obtain c r where c: "iterencode l' v = c # r" "\<not> is_ws c" "c \<noteq> 93"
    using iterencode_head [OF assms(1), of l'] by blast
  have s: "skip_ws (newline_indent l @ iterencode l' v @ R) = c # (r @ R)"
    using skip_ws_indent_value [OF assms(1), of l l' R] c by simp
  have p: "parse_array (Suc n) rt d (c # (r @ R)) = Inr (v # vs, rest)"
    using assms(2,3) c(1) by (simp only: parse_array_Suc) simp
  show ?thesis using s c(3) p by (simp add: with_rest_def)
qed

lemma tail_nil:
  "list_all is_ws ws \<Longrightarrow> array_tail n rt d x (ws @ 93 # rest) = Inr ([x], rest)"
  by (simp add: array_tail_def skip_ws_append skip_ws_not_ws not_ws)

lemma tail_cons:
  assumes "plain v"
    and "scan_once n rt d (iterencode l v @ R) = Inr (v, R)"
    and "array_tail n rt d v R = Inr (v # vs, rest)"
  shows "array_tail (Suc n) rt d x (44 # newline_indent l @ iterencode l v @ R)
           = Inr (x # v # vs, rest)"
proof -
  have s: "skip_ws (newline_indent l @ iterencode l v @ R) = iterencode l v @ R"
    by (rule skip_ws_indent_value [OF assms(1)])
  have p: "parse_array (Suc n) rt d (iterencode l v @ R) = Inr (v # vs, rest)"
    using assms(2,3) by (simp only: parse_array_Suc) simp
  have k: "skip_ws (44 # newline_indent l @ iterencode l v @ R)
           = 44 # newline_indent l @ iterencode l v @ R"
    by (simp add: skip_ws_not_ws not_ws)
  show ?thesis unfolding array_tail_def k using s p by simp
qed

lemma parse_member:
  assumes "plain v"
    and "scan_once n rt d (iterencode l v @ R) = Inr (v, R)"
  shows "parse_object (Suc n) rt d acc (encode_basestring k @ [58, 32] @ iterencode l v @ R)
           = object_tail n rt d acc k v R"
proof -
  obtain c r where c: "iterencode l v = c # r" "\<not> is_ws c"
    using iterencode_head [OF assms(1), of l] by blast
  have s: "skip_ws (32 # iterencode l v @ R) = iterencode l v @ R"
    using c by (simp add: skip_ws_space skip_ws_not_ws)
  have e: "encode_basestring k @ [58, 32] @ iterencode l v @ R
           = 34 # concat (map escape_char k) @ 34 # 58 # 32 # iterencode l v @ R"
    by (simp add: encode_basestring_def)
  have t: "skip_ws (58 # 32 # iterencode l v @ R) = 58 # 32 # iterencode l v @ R"
    by (simp add: skip_ws_not_ws not_ws)
  show ?thesis
    unfolding e by (simp only: parse_object_Suc scanstring_body) (simp add: t s assms(2))
qed

lemma scan_object:
  assumes "plain v"
    and "scan_once n rt d (iterencode l' v @ R) = Inr (v, R)"
    and "object_tail n rt d [] k v R = Inr ((k, v) # kvs, rest)"
  shows "scan_once (Suc (Suc n)) rt (Suc d)
           (123 # newline_indent l @ encode_basestring k @ [58, 32] @ iterencode l' v @ R)
           = Inr (JObj ((k, v) # kvs), rest)"
proof -
  let ?m = "encode_basestring k @ [58, 32] @ iterencode l' v @ R"
  have h: "?m = 34 # concat (map escape_char k) @ 34 # 58 # 32 # iterencode l' v @ R"
    by (simp add: encode_basestring_def)
  have s: "skip_ws (newline_indent l @ ?m) = ?m"
    unfolding h by (simp add: skip_ws_append newline_indent_ws skip_ws_not_ws not_ws)
  have p: "parse_object (Suc n) rt d [] ?m = Inr ((k, v) # kvs, rest)"
    using parse_member [OF assms(1,2), of "[]" k] assms(3) by simp
  have "scan_once (Suc (Suc n)) rt (Suc d) (123 # newline_indent l @ ?m)
        = with_rest JObj (parse_object (Suc n) rt d [] ?m)"
    using s h by simp
  then show ?thesis using p by (simp add: with_rest_def)
qed

lemma otail_nil:
  "list_all is_ws ws \<Longrightarrow> k \<notin> fst ` set acc \<Longrightarrow>
   object_tail n rt d acc k x (ws @ 125 # rest) = Inr (acc @ [(k, x)], rest)"
  by (simp add: object_tail_def skip_ws_append skip_ws_not_ws not_ws dict_set_fresh)

lemma otail_cons:
  assumes "plain v" and "k \<notin> fst ` set acc"
    and "scan_once n rt d (iterencode l v @ R) = Inr (v, R)"
    and "object_tail n rt d (acc @ [(k, x)]) k' v R = Inr (res, rest)"
  shows "object_tail (Suc n) rt d acc k x
           (44 # newline_indent l @ encode_basestring k' @ [58, 32] @ iterencode l v @ R)
           = Inr (res, rest)"
proof -
  let ?m = "encode_basestring k' @ [58, 32] @ iterencode l v @ R"
  have h: "?m = 34 # concat (map escape_char k') @ 34 # 58 # 32 # iterencode l v @ R"
    by (simp add: encode_basestring_def)
  have s: "skip_ws (newline_indent l @ ?m) = ?m"
    unfolding h by (simp add: skip_ws_append newline_indent_ws skip_ws_not_ws not_ws)
  have k: "skip_ws (44 # newline_indent l @ ?m) = 44 # newline_indent l @ ?m"
    by (simp add: skip_ws_not_ws not_ws)
  have p: "parse_object (Suc n) rt d (acc @ [(k, x)]) ?m = Inr (res, rest)"
    using parse_member [OF assms(1,3), of "acc @ [(k, x)]" k'] assms(4) by simp
  show ?thesis unfolding object_tail_def k using s p assms(2) by (simp add: dict_set_fresh)
qed

lemma scan_roundtrip_all:
  "\<forall>n d rest. plain v \<longrightarrow> jsize v \<le> n \<longrightarrow> jdepth v \<le> d \<longrightarrow>
     scan_once n rt d (iterencode level v @ rest) = Inr (v, rest)"
  "\<forall>n d x ws rest. plain_list vs \<longrightarrow> jsize_list vs \<le> n \<longrightarrow> jdepth_list vs \<le> d \<longrightarrow>
     list_all is_ws ws \<longrightarrow>
     array_tail n rt d x (iterencode_list level vs @ ws @ 93 # rest) = Inr (x # vs, rest)"
  "\<forall>n d acc k x ws rest. plain_dict kvs \<longrightarrow> jsize_dict kvs \<le> n \<longrightarrow> jdepth_dict kvs \<le> d \<longrightarrow>
     list_all is_ws ws \<longrightarrow> distinct (map fst acc @ k # map fst kvs) \<longrightarrow>
     object_tail n rt d acc k x (iterencode_dict level kvs @ ws @ 125 # rest)
       = Inr (acc @ (k, x) # kvs, rest)"
proof (induction level v and level vs and level kvs
    rule: iterencode_iterencode_list_iterencode_dict.induct)
  case (1 level)
  show ?case
  proof (intro allI impI)
    fix n d rest assume "jsize JNull \<le> n"
    then obtain m where "n = Suc m" by (cases n) simp_all
    then show "scan_once n rt d (iterencode level JNull @ rest) = Inr (JNull, rest)"
      using scan_null [of m rt d rest] by simp
  qed
next
  case (2 level b)
  show ?case
  proof (intro allI impI)
    fix n d rest assume "jsize (JBool b) \<le> n"
    then obtain m where "n = Suc m" by (cases n) simp_all
    then show "scan_once n rt d (iterencode level (JBool b) @ rest) = Inr (JBool b, rest)"
      using scan_true [of m rt d rest] scan_false [of m rt d rest] by simp
  qed
next
  case (3 level i)
  show ?case by simp
next
  case (4 level r)
  show ?case by simp
next
  case (5 level s)
  show ?case
  proof (intro allI impI)
    fix n d rest assume "jsize (JStr s) \<le> n"
    then obtain m where "n = Suc m" by (cases n) simp_all
    then show "scan_once n rt d (iterencode level (JStr s) @ rest) = Inr (JStr s, rest)"
      using scan_string [of m rt d s rest] by simp
  qed
next
  case (6 level)
  show ?case
  proof (intro allI impI)
    fix n d rest assume "jsize (JArr []) \<le> n" and "jdepth (JArr []) \<le> d"
    then obtain m d' where "n = Suc m" "d = Suc d'" by (cases n; cases d) simp_all
    then show "scan_once n rt d (iterencode level (JArr []) @ rest) = Inr (JArr [], rest)"
      using scan_empty_array [of m rt d' rest] by simp
  qed
next
  case (7 level v vs)
  show ?case
  proof (intro allI impI)
    fix n d rest assume p: "plain (JArr (v # vs))" and j: "jsize (JArr (v # vs)) \<le> n"
      and dp: "jdepth (JArr (v # vs)) \<le> d"
    from j obtain m where n: "n = Suc (Suc m)" and m: "jsize v \<le> m" "jsize_list vs \<le> m"
      by (cases n; cases "n - 1") auto
    from dp obtain d' where d: "d = Suc d'" and d': "jdepth v \<le> d'" "jdepth_list vs \<le> d'"
      by (cases d) auto
    let ?R = "iterencode_list (Suc level) vs @ newline_indent level @ 93 # rest"
    have a: "scan_once m rt d' (iterencode (Suc level) v @ ?R) = Inr (v, ?R)"
      using 7(1) p m(1) d'(1) by simp
    have b: "array_tail m rt d' v ?R = Inr (v # vs, rest)"
      using 7(2) p m(2) d'(2) newline_indent_ws [of level] by simp
    have "scan_once (Suc (Suc m)) rt (Suc d') (91 # newline_indent (Suc level) @ iterencode (Suc level) v @ ?R)
          = Inr (JArr (v # vs), rest)"
      using scan_array [OF _ a b] p by simp
    then show "scan_once n rt d (iterencode level (JArr (v # vs)) @ rest) = Inr (JArr (v # vs), rest)"
      using n d by simp
  qed
next
  case (8 level)
  show ?case
  proof (intro allI impI)
    fix n d rest assume "jsize (JObj []) \<le> n" and "jdepth (JObj []) \<le> d"
    then obtain m d' where "n = Suc m" "d = Suc d'" by (cases n; cases d) simp_all
    then show "scan_once n rt d (iterencode level (JObj []) @ rest) = Inr (JObj [], rest)"
      using scan_empty_object [of m rt d' rest] by simp
  qed
next
  case (9 level k v kvs)
  show ?case
  proof (intro allI impI)
    fix n d rest
    assume p: "plain (JObj ((k, v) # kvs))" and j: "jsize (JObj ((k, v) # kvs)) \<le> n"
      and dp: "jdepth (JObj ((k, v) # kvs)) \<le> d"
    from j obtain m where n: "n = Suc (Suc m)" and m: "jsize v \<le> m" "jsize_dict kvs \<le> m"
      by (cases n; cases "n - 1") auto
    from dp obtain d' where d: "d = Suc d'" and d': "jdepth v \<le> d'" "jdepth_dict kvs \<le> d'"
      by (cases d) auto
    let ?R = "iterencode_dict (Suc level) kvs @ newline_indent level @ 125 # rest"
    have a: "scan_once m rt d' (iterencode (Suc level) v @ ?R) = Inr (v, ?R)"
      using 9(1) p m(1) d'(1) by simp
    have b: "object_tail m rt d' [] k v ?R = Inr ((k, v) # kvs, rest)"
      using 9(2) p m(2) d'(2) newline_indent_ws [of level] by simp
    have "scan_once (Suc (Suc m)) rt (Suc d')
            (123 # newline_indent (Suc level) @ encode_basestring k @ [58, 32]
             @ iterencode (Suc level) v @ ?R) = Inr (JObj ((k, v) # kvs), rest)"
      using scan_object [OF _ a b] p by simp
    then show "scan_once n rt d (iterencode level (JObj ((k, v) # kvs)) @ rest)
               = Inr (JObj ((k, v) # kvs), rest)"
      using n d by simp
  qed
next
  case (10 level)
  show ?case by (simp add: tail_nil)
next
  case (11 level v vs)
  show ?case
  proof (intro allI impI)
    fix n d and x :: json and ws rest
    assume p: "plain_list (v # vs)" and j: "jsize_list (v # vs) \<le> n" and w: "list_all is_ws ws"
      and dp: "jdepth_list (v # vs) \<le> d"
    from j obtain m where n: "n = Suc m" and m: "jsize v \<le> m" "jsize_list vs \<le> m"
      by (cases n) auto
    have d': "jdepth v \<le> d" "jdepth_list vs \<le> d" using dp by simp_all
    let ?R = "iterencode_list level vs @ ws @ 93 # rest"
    have a: "scan_once m rt d (iterencode level v @ ?R) = Inr (v, ?R)"
      using 11(1) p m(1) d'(1) by simp
    have b: "array_tail m rt d v ?R = Inr (v # vs, rest)"
      using 11(2) p m(2) d'(2) w by simp
    have "array_tail (Suc m) rt d x (44 # newline_indent level @ iterencode level v @ ?R)
          = Inr (x # v # vs, rest)"
      using tail_cons [OF _ a b] p by simp
    then show "array_tail n rt d x (iterencode_list level (v # vs) @ ws @ 93 # rest)
               = Inr (x # v # vs, rest)"
      using n by simp
  qed
next
  case (12 level)
  show ?case by (simp add: otail_nil)
next
  case (13 level k' v kvs)
  show ?case
  proof (intro allI impI)
    fix n d and acc :: "(str \<times> json) list" and k and x :: json and ws rest
    assume p: "plain_dict ((k', v) # kvs)" and j: "jsize_dict ((k', v) # kvs) \<le> n"
      and w: "list_all is_ws ws" and ds: "distinct (map fst acc @ k # map fst ((k', v) # kvs))"
      and dp: "jdepth_dict ((k', v) # kvs) \<le> d"
    from j obtain m where n: "n = Suc m" and m: "jsize v \<le> m" "jsize_dict kvs \<le> m"
      by (cases n) auto
    have dd: "jdepth v \<le> d" "jdepth_dict kvs \<le> d" using dp by simp_all
    let ?R = "iterencode_dict level kvs @ ws @ 125 # rest"
    have a: "scan_once m rt d (iterencode level v @ ?R) = Inr (v, ?R)"
      using 13(1) p m(1) dd(1) by simp
    have d': "distinct (map fst (acc @ [(k, x)]) @ k' # map fst kvs)" using ds by auto
    have b: "object_tail m rt d (acc @ [(k, x)]) k' v ?R
             = Inr ((acc @ [(k, x)]) @ (k', v) # kvs, rest)"
    proof -
      have p': "plain_dict kvs" using p by simp
      show ?thesis using 13(2) p' m(2) dd(2) w d' by blast
    qed
    have f: "k \<notin> fst ` set acc" using ds by auto
    have "object_tail (Suc m) rt d acc k x
            (44 # newline_indent level @ encode_basestring k' @ [58, 32] @ iterencode level v @ ?R)
          = Inr ((acc @ [(k, x)]) @ (k', v) # kvs, rest)"
      using otail_cons [OF _ f a b] p by simp
    then show "object_tail n rt d acc k x (iterencode_dict level ((k', v) # kvs) @ ws @ 125 # rest)
               = Inr (acc @ (k, x) # (k', v) # kvs, rest)"
      using n by simp
  qed
qed

lemma newline_indent_length: "length (newline_indent l) = Suc (2 * l)"
  by (simp add: newline_indent_def)

lemma jsize_le_length:
  "plain v \<longrightarrow> jsize v \<le> length (iterencode level v)"
  "plain_list vs \<longrightarrow> jsize_list vs \<le> length (iterencode_list level vs)"
  "plain_dict kvs \<longrightarrow> jsize_dict kvs \<le> length (iterencode_dict level kvs)"
proof (induction level v and level vs and level kvs
    rule: iterencode_iterencode_list_iterencode_dict.induct)
  case (7 level v vs)
  then show ?case by (auto simp: newline_indent_length)
next
  case (9 level k v kvs)
  then show ?case by (auto simp: newline_indent_length)
next
  case (11 level v vs)
  then show ?case by (auto simp: newline_indent_length)
next
  case (13 level k v kvs)
  then show ?case by (auto simp: newline_indent_length)
qed (simp_all add: u_def encode_basestring_def)

lemma escape_char_no_cr: "13 \<notin> set (escape_char c)"
proof -
  have "hex_digit d \<noteq> 13" for d by (simp add: hex_digit_def)
  then show ?thesis by (simp add: escape_char_def)
qed

lemma encode_basestring_no_cr: "13 \<notin> set (encode_basestring s)"
  by (induction s) (simp_all add: encode_basestring_def escape_char_no_cr)

lemma newline_indent_no_cr: "13 \<notin> set (newline_indent l)"
  by (simp add: newline_indent_def)

lemma iterencode_no_cr:
  "plain v \<longrightarrow> 13 \<notin> set (iterencode level v)"
  "plain_list vs \<longrightarrow> 13 \<notin> set (iterencode_list level vs)"
  "plain_dict kvs \<longrightarrow> 13 \<notin> set (iterencode_dict level kvs)"
  by (induction level v and level vs and level kvs
      rule: iterencode_iterencode_list_iterencode_dict.induct)
     (simp_all add: u_def encode_basestring_no_cr newline_indent_no_cr)

lemma loads_dumps:
  assumes "plain v" and "jdepth v \<le> recursion_limit rt"
  shows "json_loads rt (json_dumps v) = Inr v"
proof -
  let ?s = "iterencode 0 v"
  obtain c r where c: "?s = c # r" "\<not> is_ws c" "c \<noteq> 65279"
    using iterencode_head [OF assms(1), of 0] by blast
  have ws: "skip_ws ?s = ?s" using c by (simp add: skip_ws_not_ws)
  have "jsize v \<le> length ?s" using jsize_le_length(1) [of v 0] assms(1) by simp
  then have f: "jsize v \<le> 2 * length ?s + 2" by simp
  have "scan_once (2 * length ?s + 2) rt (recursion_limit rt) (?s @ []) = Inr (v, [])"
    using scan_roundtrip_all(1) [of v rt 0] assms f by blast
  then show ?thesis using c ws by (simp add: json_loads_def json_dumps_def skip_ws_def)
qed

lemma plain_list_all:
  "list_all (\<lambda>x. plain x \<and> jdepth x \<le> n) xs \<Longrightarrow> plain_list xs \<and> jdepth_list xs \<le> n"
  by (induction xs) simp_all

lemma plain_dict_all:
  "list_all (\<lambda>(k, x). plain x \<and> jdepth x \<le> n) kvs \<Longrightarrow> plain_dict kvs \<and> jdepth_dict kvs \<le> n"
  by (induction kvs) auto

lemma is_string_plain: "is_string x \<Longrightarrow> plain x \<and> jdepth x \<le> 0"
  by (cases x) (simp_all add: is_string_def)

lemma is_string_or_null_plain: "is_string_or_null x \<Longrightarrow> plain x \<and> jdepth x \<le> 0"
  by (cases x) (simp_all add: is_string_or_null_def)

lemma list_all_weaken: "list_all P xs \<Longrightarrow> (\<And>x. P x \<Longrightarrow> Q x) \<Longrightarrow> list_all Q xs"
  by (induction xs) simp_all

lemma is_string_array_plain: "is_string_array x \<Longrightarrow> plain x \<and> jdepth x \<le> 1"
proof (cases x)
  case (JArr xs)
  assume "is_string_array x"
  then have "list_all is_string xs" using JArr by (simp add: is_string_array_def)
  then have "list_all (\<lambda>x. plain x \<and> jdepth x \<le> 0) xs"
    by (rule list_all_weaken) (rule is_string_plain)
  then show ?thesis using plain_list_all [of 0 xs] JArr by simp
qed (simp_all add: is_string_array_def)

lemma weaken_depth: "plain x \<and> jdepth x \<le> m \<Longrightarrow> m \<le> n \<Longrightarrow> plain x \<and> jdepth x \<le> n"
  by simp

lemma experience_item_plain: "experience_item x \<Longrightarrow> plain x \<and> jdepth x \<le> 2"
proof (cases x)
  case (JObj kvs)
  assume a: "experience_item x"
  then have d: "distinct (map fst kvs)" using JObj by (simp add: experience_item_def has_keys_def)
  have "list_all (\<lambda>(k, x). if k = u ''position'' then is_string x
                               else if k = u ''description'' then is_string_array x
                               else is_string_or_null x) kvs"
    using a JObj by (simp add: experience_item_def)
  then have "list_all (\<lambda>(k, x). plain x \<and> jdepth x \<le> 1) kvs"
  proof (rule list_all_weaken)
    fix kv :: "str \<times> json"
    assume "case kv of (k, x) \<Rightarrow> if k = u ''position'' then is_string x
                               else if k = u ''description'' then is_string_array x
                               else is_string_or_null x"
    then show "case kv of (k, x) \<Rightarrow> plain x \<and> jdepth x \<le> 1"
      using is_string_plain is_string_array_plain is_string_or_null_plain
      by (cases kv) (auto split: if_splits)
  qed
  then show ?thesis using plain_dict_all [of 1 kvs] d JObj by simp
qed (simp_all add: experience_item_def)

lemma education_item_plain: "education_item x \<Longrightarrow> plain x \<and> jdepth x \<le> 1"
proof (cases x)
  case (JObj kvs)
  assume a: "education_item x"
  then have d: "distinct (map fst kvs)" using JObj by (simp add: education_item_def has_keys_def)
  have "list_all (\<lambda>(k, x). is_string_or_null x) kvs"
    using a JObj by (simp add: education_item_def)
  then have "list_all (\<lambda>(k, x). plain x \<and> jdepth x \<le> 0) kvs"
  proof (rule list_all_weaken)
    fix kv :: "str \<times> json"
    assume "case kv of (k, x) \<Rightarrow> is_string_or_null x"
    then show "case kv of (k, x) \<Rightarrow> plain x \<and> jdepth x \<le> 0"
      using is_string_or_null_plain by (cases kv) auto
  qed
  then show ?thesis using plain_dict_all [of 0 kvs] d JObj by simp
qed (simp_all add: education_item_def)

lemma is_array_of_plain:
  assumes "is_array_of item x" and "\<And>y. item y \<Longrightarrow> plain y \<and> jdepth y \<le> n"
  shows "plain x \<and> jdepth x \<le> Suc n"
proof (cases x)
  case (JArr xs)
  then have "list_all item xs" using assms(1) by (simp add: is_array_of_def)
  then have "list_all (\<lambda>y. plain y \<and> jdepth y \<le> n) xs"
    by (rule list_all_weaken) (rule assms(2))
  then show ?thesis using plain_list_all [of n xs] JArr by simp
qed (use assms(1) in \<open>simp_all add: is_array_of_def\<close>)

lemma property_ok_plain: "property_ok k x \<Longrightarrow> plain x \<and> jdepth x \<le> 3"
proof -
  assume a: "property_ok k x"
  consider "is_string x" | "is_string_array x" | "is_array_of experience_item x"
    | "is_array_of education_item x" | "is_string_or_null x"
    using a by (auto simp: property_ok_def split: if_splits)
  then show ?thesis
  proof cases
    case 1
    then show ?thesis using is_string_plain [of x] by simp
  next
    case 2
    then show ?thesis using is_string_array_plain [of x] by simp
  next
    case 3
    then show ?thesis using is_array_of_plain [of experience_item x 2] experience_item_plain
      by (simp add: numeral_3_eq_3 numeral_2_eq_2)
  next
    case 4
    then show ?thesis using is_array_of_plain [of education_item x 1] education_item_plain
      by simp
  next
    case 5
    then show ?thesis using is_string_or_null_plain [of x] by simp
  qed
qed

lemma schema_valid_plain: "schema_valid v \<Longrightarrow> plain v \<and> jdepth v \<le> 4"
proof (cases v)
  case (JObj kvs)
  assume a: "schema_valid v"
  then have d: "distinct (map fst kvs)" using JObj by (simp add: schema_valid_def has_keys_def)
  have "list_all (\<lambda>(k, x). property_ok k x) kvs" using a JObj by (simp add: schema_valid_def)
  then have "list_all (\<lambda>(k, x). plain x \<and> jdepth x \<le> 3) kvs"
  proof (rule list_all_weaken)
    fix kv :: "str \<times> json"
    assume "case kv of (k, x) \<Rightarrow> property_ok k x"
    then show "case kv of (k, x) \<Rightarrow> plain x \<and> jdepth x \<le> 3"
      using property_ok_plain by (cases kv) auto
  qed
  then show ?thesis using plain_dict_all [of 3 kvs] d JObj by simp
qed (simp_all add: schema_valid_def)

text \<open>The text of a record without surrogates can be encoded.\<close>

lemma escape_char_scalar: "is_scalar c \<Longrightarrow> list_all is_scalar (escape_char c)"
proof -
  have "is_scalar (hex_digit d)" if "d < 16" for d
    using that by (simp add: hex_digit_def is_scalar_def)
  moreover have "c < 32 \<Longrightarrow> c div 16 < 16" by simp
  moreover have "c mod 16 < 16" by simp
  ultimately show "is_scalar c \<Longrightarrow> list_all is_scalar (escape_char c)"
    by (simp add: escape_char_def is_scalar_def)
qed

lemma encode_basestring_scalar:
  "list_all is_scalar s \<Longrightarrow> list_all is_scalar (encode_basestring s)"
proof -
  assume "list_all is_scalar s"
  then have "list_all is_scalar (concat (map escape_char s))"
    by (induction s) (simp_all add: escape_char_scalar)
  then show ?thesis by (simp add: encode_basestring_def is_scalar_def)
qed

lemma newline_indent_scalar: "list_all is_scalar (newline_indent l)"
  by (simp add: newline_indent_def is_scalar_def list_all_iff)

lemma scalar_punctuation:
  "is_scalar 91" "is_scalar 93" "is_scalar 123" "is_scalar 125" "is_scalar 44"
  "is_scalar 58" "is_scalar 32"
  "list_all is_scalar (u ''null'')" "list_all is_scalar (u ''true'')"
  "list_all is_scalar (u ''false'')" "list_all is_scalar (u ''[]'')"
  "list_all is_scalar (u ''{}'')"
  by (simp_all add: is_scalar_def u_def)

lemma iterencode_scalar:
  "plain v \<and> scalar_json v \<longrightarrow> list_all is_scalar (iterencode level v)"
  "plain_list vs \<and> scalar_list vs \<longrightarrow> list_all is_scalar (iterencode_list level vs)"
  "plain_dict kvs \<and> scalar_dict kvs \<longrightarrow> list_all is_scalar (iterencode_dict level kvs)"
  by (induction level v and level vs and level kvs
      rule: iterencode_iterencode_list_iterencode_dict.induct)
     (simp_all add: scalar_punctuation encode_basestring_scalar newline_indent_scalar)

lemma utf8_encode_char_scalar: "is_scalar c \<Longrightarrow> \<exists>bs. utf8_encode_char c = Some bs"
  by (auto simp: utf8_encode_char_def is_scalar_def)

lemma utf8_encode_nat_scalar: "list_all is_scalar s \<Longrightarrow> \<exists>ns. utf8_encode_nat s = Inr ns"
proof (induction s)
  case Nil
  then show ?case by simp
next
  case (Cons c s)
  then obtain bs ns where "utf8_encode_char c = Some bs" "utf8_encode_nat s = Inr ns"
    using utf8_encode_char_scalar [of c] by auto
  then show ?case by simp
qed

lemma dumps_encodable:
  assumes "plain v" and "scalar_json v"
  shows "\<exists>bs. utf8_encode (json_dumps v) = Inr bs"
proof -
  have "list_all is_scalar (json_dumps v)"
    using iterencode_scalar(1) [of v 0] assms by (simp add: json_dumps_def)
  then obtain ns where "utf8_encode_nat (json_dumps v) = Inr ns"
    using utf8_encode_nat_scalar by blast
  then show ?thesis by (simp add: utf8_encode_def to_bytes_def)
qed

lemma encode_basestring_literal:
  "list_all (\<lambda>c. 32 \<le> c \<and> c \<noteq> 34 \<and> c \<noteq> 92) s \<Longrightarrow> encode_basestring s = 34 # s @ [34]"
proof -
  assume "list_all (\<lambda>c. 32 \<le> c \<and> c \<noteq> 34 \<and> c \<noteq> 92) s"
  then have "concat (map escape_char s) = s"
    by (induction s) (auto simp: escape_char_def)
  then show ?thesis by (simp add: encode_basestring_def)
qed

section \<open>The written record\<close>

lemma replicate_two: "replicate n x @ [x, x] = x # x # replicate n x"
  by (induction n) simp_all

lemma newline_indent_simps:
  "newline_indent 0 = [10]" "newline_indent (Suc l) = newline_indent l @ [32, 32]"
  by (simp_all add: newline_indent_def replicate_two)

lemma iterencode_dict_members:
  "iterencode_dict 1 kvs =
     concat (map (\<lambda>(k, v). [44, 10, 32, 32] @ encode_basestring k @ [58, 32] @ iterencode 1 v) kvs)"
  by (induction kvs) (auto simp: newline_indent_simps)

lemma dumps_object:
  "json_dumps (JObj ((k, v) # kvs)) =
     [123, 10, 32, 32] @ encode_basestring k @ [58, 32] @ iterencode 1 v
     @ concat (map (\<lambda>(k, v). [44, 10, 32, 32] @ encode_basestring k @ [58, 32] @ iterencode 1 v) kvs)
     @ [10, 125]"
  using iterencode_dict_members [of kvs] by (simp add: json_dumps_def newline_indent_simps)

lemma schema_valid_object: "schema_valid data \<Longrightarrow> \<exists>k v kvs. data = JObj ((k, v) # kvs)"
proof (cases data)
  case (JObj kvs)
  assume "schema_valid data"
  then have "set (map fst kvs) = set required_keys"
    using JObj by (simp add: schema_valid_def has_keys_def)
  then have "kvs \<noteq> []" by (auto simp: required_keys_def)
  then show ?thesis using JObj by (cases kvs) auto
qed (simp_all add: schema_valid_def)

lemma json_load_written:
  assumes "utf8_encode s = Inr bs" and "13 \<notin> set s"
  shows "json_load rt (fs(out \<mapsto> bs)) out = json_loads rt s"
  using utf8_roundtrip [OF assms(1)] assms(2)
  by (simp add: json_load_def read_text_def translate_newlines_id)

text \<open>
  C8 (amended). When the extraction client has returned a record that validates against
  the schema and whose strings hold no surrogate code point, and the output path can be
  opened for writing, the driver returns the output path and the file holds the UTF-8
  encoding of the text of \<open>json.dump\<close>; reading that file back as UTF-8 text and parsing
  it, in an interpreter that allows four nested values, yields the record itself. In the
  text every member of the record is on a line of its own behind two spaces, and a string
  of code points that are neither control characters nor the quote nor the backslash,
  non-ASCII ones included, is written between quotes as it is.
\<close>

theorem written_record_roundtrip:
  assumes "extract_text (modules E) (files w) p = Inr t" and "\<not> (\<forall>c \<in> set t. isspace c)"
    and "llm_extract_resume E w t = (Inr data, w')"
    and "schema_valid data" and "scalar_json data"
    and "writable E out" and "4 \<le> recursion_limit rt"
  shows "(\<exists>bs. utf8_encode (json_dumps data) = Inr bs
            \<and> decode UTF8 bs = Inr (json_dumps data)
            \<and> parse_any_resume_to_json E w p out
                = (Inr out, w'\<lparr>files := (files w)(out \<mapsto> bs)\<rparr>)
            \<and> json_load rt ((files w)(out \<mapsto> bs)) out = Inr data)
         \<and> (\<exists>k v kvs. data = JObj ((k, v) # kvs)
               \<and> json_dumps data =
                   [123, 10, 32, 32] @ encode_basestring k @ [58, 32] @ iterencode 1 v
                   @ concat (map (\<lambda>(k, v). [44, 10, 32, 32] @ encode_basestring k @ [58, 32]
                                            @ iterencode 1 v) kvs)
                   @ [10, 125])
         \<and> (list_all (\<lambda>c. 32 \<le> c \<and> c \<noteq> 34 \<and> c \<noteq> 92) s
               \<longrightarrow> iterencode level (JStr s) = [34] @ s @ [34])"
proof (intro conjI)
  have pl: "plain data" and dp: "jdepth data \<le> recursion_limit rt"
    using schema_valid_plain [OF assms(4)] assms(7) by simp_all
  obtain bs where bs: "utf8_encode (json_dumps data) = Inr bs"
    using dumps_encodable [OF pl assms(5)] by blast
  have cr: "13 \<notin> set (json_dumps data)"
    using iterencode_no_cr(1) [of data 0] pl by (simp add: json_dumps_def)
  have "json_load rt ((files w)(out \<mapsto> bs)) out = Inr data"
    using json_load_written [OF bs cr, of rt "files w" out] loads_dumps [OF pl dp] by simp
  moreover have "parse_any_resume_to_json E w p out
                   = (Inr out, w'\<lparr>files := (files w)(out \<mapsto> bs)\<rparr>)"
    using driver_success [OF assms(1,2,3,6) bs] .
  moreover have "decode UTF8 bs = Inr (json_dumps data)" using utf8_roundtrip [OF bs] .
  ultimately show "\<exists>bs. utf8_encode (json_dumps data) = Inr bs
            \<and> decode UTF8 bs = Inr (json_dumps data)
            \<and> parse_any_resume_to_json E w p out
                = (Inr out, w'\<lparr>files := (files w)(out \<mapsto> bs)\<rparr>)
            \<and> json_load rt ((files w)(out \<mapsto> bs)) out = Inr data"
    using bs by blast
next
  show "\<exists>k v kvs. data = JObj ((k, v) # kvs)
               \<and> json_dumps data =
                   [123, 10, 32, 32] @ encode_basestring k @ [58, 32] @ iterencode 1 v
                   @ concat (map (\<lambda>(k, v). [44, 10, 32, 32] @ encode_basestring k @ [58, 32]
                                            @ iterencode 1 v) kvs)
                   @ [10, 125]"
    using schema_valid_object [OF assms(4)] dumps_object by blast
next
  show "list_all (\<lambda>c. 32 \<le> c \<and> c \<noteq> 34 \<and> c \<noteq> 92) s
               \<longrightarrow> iterencode level (JStr s) = [34] @ s @ [34]"
    using encode_basestring_literal [of s] by simp
qed

lemma loads_good: "json_loads sample_runtime good_doc = Inr good_record"
  unfolding good_doc_def good_record_def by (simp add: json_eval)

lemma valid_good: "schema_valid good_record"
  unfolding good_record_def schema_valid_def
  by (simp add: has_keys_def required_keys_def property_ok_def is_string_def is_string_or_null_def
      is_string_array_def is_array_of_def experience_item_def u_def)

lemma scalar_good: "scalar_json good_record"
  unfolding good_record_def by (simp add: is_scalar_def u_def)

lemma dumps_good: "json_dumps good_record = good_text"
  unfolding good_record_def good_text_def json_dumps_def
  by (simp add: encode_basestring_def escape_char_def newline_indent_def u_def
      eval_nat_numeral)

lemma encode_good: "utf8_encode good_text = Inr good_bytes"
  unfolding good_text_def good_bytes_def
  by (simp add: utf8_encode_def to_bytes_def utf8_encode_char_def u_def)

lemma partial_load:
  "json_load sample_runtime (fs(u ''out.json'' \<mapsto> [123, 10, 32, 32, 34, 110, 97, 109, 101, 34, 58, 32]))
     (u ''out.json'')
   = Inl (JSONDecodeError [123, 10, 32, 32, 34, 110, 97, 109, 101, 34, 58, 32])"
  by (simp add: json_load_def read_text_def utf8_step_def json_eval)

text \<open>The amended C8 at a record whose name is \<open>Zo\<close> followed by U+00EB.\<close>

theorem written_record_roundtrip_witness:
  "parse_any_resume_to_json (sample_env good_doc) sample_world (u ''x.TXT'') (u ''out.json'')
     = (Inr (u ''out.json''),
        sample_world\<lparr>net_calls := [make_request (u ''sk-test'') [65, 255, 66]],
                      files := sample_fs(u ''out.json'' \<mapsto> good_bytes)\<rparr>)
   \<and> decode UTF8 good_bytes = Inr good_text
   \<and> json_load sample_runtime (sample_fs(u ''out.json'' \<mapsto> good_bytes)) (u ''out.json'')
       = Inr good_record
   \<and> iterencode 1 (JStr [90, 111, 235]) = [34, 90, 111, 235, 34]"
proof -
  let ?w1 = "sample_world\<lparr>net_calls := [make_request (u ''sk-test'') [65, 255, 66]]\<rparr>"
  have x: "extract_text (modules (sample_env good_doc)) (files sample_world) (u ''x.TXT'')
             = Inr [65, 255, 66]"
    by (simp add: sample_env_simps sample_extract_x)
  have l: "llm_extract_resume (sample_env good_doc) sample_world [65, 255, 66]
             = (Inr good_record, ?w1)"
    by (simp add: sample_llm loads_good)
  have r: "4 \<le> recursion_limit sample_runtime" by (simp add: sample_runtime_simps)
  have p: "list_all (\<lambda>c. 32 \<le> c \<and> c \<noteq> 34 \<and> c \<noteq> 92) [90, 111, 235 :: nat]" by simp
  have e: "utf8_encode (json_dumps good_record) = Inr good_bytes"
    by (simp add: dumps_good encode_good)
  show ?thesis
    using written_record_roundtrip [where E = "sample_env good_doc" and w = sample_world
        and p = "u ''x.TXT''" and t = "[65, 255, 66]" and data = good_record and w' = ?w1
        and out = "u ''out.json''" and rt = sample_runtime and s = "[90, 111, 235]"
        and level = 1, OF x x_not_blank l valid_good scalar_good _ r]
      e p
    by (simp add: sample_env_simps dumps_good)
qed

text \<open>
  C8 as stated fails: the record whose name is a lone surrogate validates against the
  schema and is returned by the client, yet the write raises \<open>UnicodeEncodeError\<close>, no
  path is returned, and reading the output file back raises \<open>JSONDecodeError\<close>.
\<close>

theorem written_record_roundtrip_counterexample:
  "extract_text (modules (sample_env bad_doc)) (files sample_world) (u ''x.TXT'') = Inr [65, 255, 66]
   \<and> llm_extract_resume (sample_env bad_doc) sample_world [65, 255, 66]
       = (Inr bad_record, sample_world\<lparr>net_calls := [make_request (u ''sk-test'') [65, 255, 66]]\<rparr>)
   \<and> schema_valid bad_record
   \<and> writable (sample_env bad_doc) (u ''out.json'')
   \<and> fst (parse_any_resume_to_json (sample_env bad_doc) sample_world (u ''x.TXT'') (u ''out.json''))
       = Inl UnicodeEncodeError
   \<and> json_load sample_runtime
       (files (snd (parse_any_resume_to_json (sample_env bad_doc) sample_world (u ''x.TXT'')
                      (u ''out.json''))))
       (u ''out.json'')
       = Inl (JSONDecodeError [123, 10, 32, 32, 34, 110, 97, 109, 101, 34, 58, 32])"
proof -
  let ?w1 = "sample_world\<lparr>net_calls := [make_request (u ''sk-test'') [65, 255, 66]]\<rparr>"
  have x: "extract_text (modules (sample_env bad_doc)) (files sample_world) (u ''x.TXT'')
             = Inr [65, 255, 66]"
    by (simp add: sample_env_simps sample_extract_x)
  have l: "llm_extract_resume (sample_env bad_doc) sample_world [65, 255, 66]
             = (Inr bad_record, ?w1)"
    by (simp add: sample_llm loads_bad)
  have d: "parse_any_resume_to_json (sample_env bad_doc) sample_world (u ''x.TXT'') (u ''out.json'')
        = write_json (sample_env bad_doc) ?w1 (u ''out.json'') bad_record"
    using driver_write [OF x x_not_blank l] .
  have p: "partial_output (sample_env bad_doc) bad_record
             = [123, 10, 32, 32, 34, 110, 97, 109, 101, 34, 58, 32]"
    by (simp add: sample_env_def)
  have w: "write_json (sample_env bad_doc) ?w1 (u ''out.json'') bad_record
        = (Inl UnicodeEncodeError,
           ?w1\<lparr>files := (files ?w1)(u ''out.json'' \<mapsto> [123, 10, 32, 32, 34, 110, 97, 109, 101, 34, 58, 32])\<rparr>)"
    by (simp add: write_json_def bad_record_not_encodable sample_env_simps p)
  have 5: "fst (parse_any_resume_to_json (sample_env bad_doc) sample_world (u ''x.TXT'') (u ''out.json''))
       = Inl UnicodeEncodeError"
    by (simp add: d w)
  have 6: "json_load sample_runtime
       (files (snd (parse_any_resume_to_json (sample_env bad_doc) sample_world (u ''x.TXT'')
                      (u ''out.json''))))
       (u ''out.json'')
       = Inl (JSONDecodeError [123, 10, 32, 32, 34, 110, 97, 109, 101, 34, 58, 32])"
    by (simp add: d w partial_load)
  have 4: "writable (sample_env bad_doc) (u ''out.json'')" by (simp add: sample_env_simps)
  show ?thesis using x l valid_bad 4 5 6 by (intro conjI)
qed

end
